theory Spec2Isabelle
  imports Complex_Main "HOL-Library.Word"
begin

section \<open>Strings, numbers and errors of the source language\<close>

text \<open>
  A JavaScript string is a sequence of UTF-16 code units; the regular expressions of
  \<^verbatim>\<open>utils.ts\<close> carry no \<^verbatim>\<open>u\<close> flag, so they work on code units too. A string literal
  of the source is written \<open>str ''...''\<close>.

  A JavaScript number is an IEEE double: zero, or a significand of 53 bits times a power
  of two. The result of an arithmetic operation is the double nearest to the exact
  result, the one with the even significand when two are equally near. The numbers that
  the modelled functions multiply and subtract are integers, so they are kept as \<open>int\<close>,
  and \<open>jsTimes\<close> and \<open>jsMinus\<close> round a product and a difference to the nearest double; a
  quotient is the double nearest to a fraction of two integers, kept as a \<open>rat\<close>. The
  exponent of a double has limits that the model leaves out: no quotient of the modelled
  functions is small enough to be subnormal, and a result of \<open>2 ^ 1024\<close> or more, which
  is \<^verbatim>\<open>Infinity\<close> in the source, takes an integer of 299 digits or more in the
  frequency.
\<close>

type_synonym code_unit = "16 word"
type_synonym jsstring = "code_unit list"

definition str :: "string \<Rightarrow> jsstring" where
  "str s = map of_char s"

text \<open>An \<^verbatim>\<open>Error\<close> object, with its message.\<close>

datatype error = Error jsstring

text \<open>The class \<^verbatim>\<open>\s\<close> of a regular expression, which is also what \<^verbatim>\<open>trim\<close> removes.\<close>

definition isWhiteSpace :: "code_unit \<Rightarrow> bool" where
  "isWhiteSpace c \<longleftrightarrow>
     c = 0x0009 \<or> c = 0x000A \<or> c = 0x000B \<or> c = 0x000C \<or> c = 0x000D \<or> c = 0x0020 \<or>
     c = 0x00A0 \<or> c = 0x1680 \<or> (0x2000 \<le> c \<and> c \<le> 0x200A) \<or>
     c = 0x2028 \<or> c = 0x2029 \<or> c = 0x202F \<or> c = 0x205F \<or> c = 0x3000 \<or> c = 0xFEFF"

text \<open>The class \<^verbatim>\<open>\d\<close>: the ten ASCII digits.\<close>

definition isDigit :: "code_unit \<Rightarrow> bool" where
  "isDigit c \<longleftrightarrow> 0x30 \<le> c \<and> c \<le> 0x39"

text \<open>
  \<^verbatim>\<open>toLowerCase\<close> on the letters A to Z. Under the \<^verbatim>\<open>i\<close> flag a code unit matches an
  ASCII letter of the pattern exactly when it is that letter in either case (no code unit
  from 128 on is folded onto an ASCII one), so matching compares the lower-cased text.
\<close>

definition toLowerCase_unit :: "code_unit \<Rightarrow> code_unit" where
  "toLowerCase_unit c = (if 0x41 \<le> c \<and> c \<le> 0x5A then c + 0x20 else c)"

definition toLowerCase :: "jsstring \<Rightarrow> jsstring" where
  "toLowerCase s = map toLowerCase_unit s"

text \<open>\<^verbatim>\<open>trim\<close>: white space is removed from both ends.\<close>

definition trim :: "jsstring \<Rightarrow> jsstring" where
  "trim s = rev (dropWhile isWhiteSpace (rev (dropWhile isWhiteSpace s)))"

text \<open>The number of bits of a positive integer, and a multiplication by a power of two
  that does nothing when the power is negative.\<close>

fun bitLength :: "int \<Rightarrow> nat" where
  "bitLength n = (if n \<le> 0 then 0 else Suc (bitLength (n div 2)))"

declare bitLength.simps [simp del]

definition shift :: "int \<Rightarrow> int \<Rightarrow> int" where
  "shift x k = x * 2 ^ nat k"

text \<open>The exponent \<open>e\<close> of a fraction \<open>a / b\<close> with \<open>a \<noteq> 0\<close> and \<open>0 < b\<close>: the one with
  \<open>2 ^ e \<le> \<bar>a / b\<bar> < 2 ^ (e + 1)\<close>.\<close>

definition exponentOf :: "int \<Rightarrow> int \<Rightarrow> int" where
  "exponentOf a b =
     (let d = int (bitLength \<bar>a\<bar>) - int (bitLength b)
      in if shift b d \<le> shift \<bar>a\<bar> (- d) then d else d - 1)"

text \<open>The integer nearest to \<open>n / d\<close> for \<open>0 < d\<close>, the even one of two equally near.\<close>

definition roundHalfEven :: "int \<Rightarrow> int \<Rightarrow> int" where
  "roundHalfEven n d =
     (let f = n div d; r = n mod d
      in if 2 * r < d then f else if d < 2 * r then f + 1 else if even f then f else f + 1)"

text \<open>The double nearest to \<open>a / b\<close> for \<open>0 < b\<close>: the fraction is scaled by a power of two
  to 53 bits before the point, rounded there and scaled back.\<close>

definition nearestDouble :: "int \<Rightarrow> int \<Rightarrow> rat" where
  "nearestDouble a b =
     (if a = 0 then 0
      else let k = exponentOf a b - 52;
               m = roundHalfEven (shift a (- k)) (shift b k)
           in of_int (shift m k) / of_int (shift 1 (- k)))"

text \<open>The double nearest to an integer, which is an integer, and the operators \<^verbatim>\<open>*\<close>, \<^verbatim>\<open>-\<close>
  and \<^verbatim>\<open>/\<close> on doubles that are integers (the divisors of the source are positive
  constants).\<close>

definition toDouble :: "int \<Rightarrow> int" where
  "toDouble n = \<lfloor>nearestDouble n 1\<rfloor>"

definition jsTimes :: "int \<Rightarrow> int \<Rightarrow> int" where
  "jsTimes a b = toDouble (a * b)"

definition jsMinus :: "int \<Rightarrow> int \<Rightarrow> int" where
  "jsMinus a b = toDouble (a - b)"

definition jsDivide :: "int \<Rightarrow> int \<Rightarrow> rat" where
  "jsDivide a b = nearestDouble a b"

text \<open>
  \<^verbatim>\<open>parseInt (ds, 10)\<close> on a string of digits: the double nearest to the integer that the
  digits denote (beyond 20 digits the language lets an implementation read the later
  digits as zeros before it rounds; the model reads them all). Then the decimal string of
  a number as a template literal prints it.
\<close>

definition digitValue :: "code_unit \<Rightarrow> int" where
  "digitValue c = uint c - 48"

definition mathInt :: "jsstring \<Rightarrow> int" where
  "mathInt ds = foldl (\<lambda>acc c. 10 * acc + digitValue c) 0 ds"

definition parseInt10 :: "jsstring \<Rightarrow> int" where
  "parseInt10 ds = toDouble (mathInt ds)"

fun digitsOf :: "nat \<Rightarrow> jsstring" where
  "digitsOf n = (if n < 10 then [48 + of_nat n] else digitsOf (n div 10) @ [48 + of_nat (n mod 10)])"

declare digitsOf.simps [simp del]

definition toString :: "int \<Rightarrow> jsstring" where
  "toString i = (if i < 0 then 0x2D # digitsOf (nat (- i)) else digitsOf (nat i))"

section \<open>Frequency parsing (\<^verbatim>\<open>utils.ts\<close>)\<close>

text \<open>\<^verbatim>\<open>frequency.replace(/^every\s+/i, "")\<close>: a leading "every" and the white space after
  it are removed, provided there is at least one white space.\<close>

definition replaceEvery :: "jsstring \<Rightarrow> jsstring" where
  "replaceEvery s =
     (if toLowerCase (take 5 s) = str ''every'' \<and> takeWhile isWhiteSpace (drop 5 s) \<noteq> []
      then dropWhile isWhiteSpace (drop 5 s) else s)"

definition normalizedFrequency :: "jsstring \<Rightarrow> jsstring" where
  "normalizedFrequency frequency = trim (replaceEvery frequency)"

definition units :: "jsstring list" where
  "units = map str [''second'', ''seconds'', ''minute'', ''minutes'', ''hour'', ''hours'',
                    ''day'', ''days'', ''week'', ''weeks'', ''month'', ''months'']"

text \<open>
  The match of \<^verbatim>\<open>/^(\d+)\s*(second|seconds|...|months)$/i\<close>: the two groups, the second one
  already in lower case (the source lower-cases it right after the match).
\<close>

definition matchFrequency :: "jsstring \<Rightarrow> (jsstring \<times> jsstring) option" where
  "matchFrequency s =
     (let ds = takeWhile isDigit s;
          u = toLowerCase (dropWhile isWhiteSpace (dropWhile isDigit s))
      in if ds \<noteq> [] \<and> u \<in> set units then Some (ds, u) else None)"

definition invalidFrequency :: "jsstring \<Rightarrow> error" where
  "invalidFrequency frequency =
     Error (str ''Invalid frequency format: '' @ frequency @ str ''. Use format like '' @
            [0x22] @ str ''1 second'' @ [0x22] @ str '', '' @
            [0x22] @ str ''30 minutes'' @ [0x22] @ str '', '' @
            [0x22] @ str ''2 hours'' @ [0x22] @ str '', '' @
            [0x22] @ str ''7 days'' @ [0x22] @ str '', or '' @
            [0x22] @ str ''2 weeks'' @ [0x22])"

definition parseFrequencyToMilliseconds :: "jsstring \<Rightarrow> error + int" where
  "parseFrequencyToMilliseconds frequency =
     (case matchFrequency (normalizedFrequency frequency) of
        None \<Rightarrow> Inl (invalidFrequency frequency)
      | Some (ds, unit) \<Rightarrow>
          (let v = parseInt10 ds in
           if unit = str ''second'' \<or> unit = str ''seconds'' then Inr (jsTimes v 1000)
           else if unit = str ''minute'' \<or> unit = str ''minutes'' then
             Inr (jsTimes (jsTimes v 60) 1000)
           else if unit = str ''hour'' \<or> unit = str ''hours'' then
             Inr (jsTimes (jsTimes (jsTimes v 60) 60) 1000)
           else if unit = str ''day'' \<or> unit = str ''days'' then
             Inr (jsTimes (jsTimes (jsTimes (jsTimes v 24) 60) 60) 1000)
           else if unit = str ''week'' \<or> unit = str ''weeks'' then
             Inr (jsTimes (jsTimes (jsTimes (jsTimes (jsTimes v 7) 24) 60) 60) 1000)
           else if unit = str ''month'' \<or> unit = str ''months'' then
             Inr (jsTimes (jsTimes (jsTimes (jsTimes (jsTimes v 30) 24) 60) 60) 1000)
           else Inl (Error (str ''Unsupported frequency unit: '' @ unit))))"

text \<open>
  \<^verbatim>\<open>parseFrequencyToDays\<close> has the same normalisation and the same match; it returns a number
  of days, a fraction for the units below a day.
\<close>

definition parseFrequencyToDays :: "jsstring \<Rightarrow> error + rat" where
  "parseFrequencyToDays frequency =
     (case matchFrequency (normalizedFrequency frequency) of
        None \<Rightarrow> Inl (invalidFrequency frequency)
      | Some (ds, unit) \<Rightarrow>
          (let v = parseInt10 ds in
           if unit = str ''second'' \<or> unit = str ''seconds'' then Inr (jsDivide v (24 * 60 * 60))
           else if unit = str ''minute'' \<or> unit = str ''minutes'' then Inr (jsDivide v (24 * 60))
           else if unit = str ''hour'' \<or> unit = str ''hours'' then Inr (jsDivide v 24)
           else if unit = str ''day'' \<or> unit = str ''days'' then Inr (of_int v)
           else if unit = str ''week'' \<or> unit = str ''weeks'' then Inr (of_int (jsTimes v 7))
           else if unit = str ''month'' \<or> unit = str ''months'' then Inr (of_int (jsTimes v 30))
           else Inl (Error (str ''Unsupported frequency unit: '' @ unit))))"

section \<open>Due evaluation (\<^verbatim>\<open>utils.ts\<close>)\<close>

text \<open>
  The argument of \<^verbatim>\<open>isTaskDue\<close> and \<^verbatim>\<open>getDaysOverdue\<close>: a \<^verbatim>\<open>Date\<close> is its
  \<^verbatim>\<open>getTime ()\<close>, the milliseconds since the epoch (a valid date; every caller builds
  one). An absent \<^verbatim>\<open>lastCompleted\<close> is \<open>None\<close>; a \<^verbatim>\<open>Date\<close> object is truthy, so
  \<^verbatim>\<open>task.lastCompleted || task.createdAt\<close> is the completion date whenever there is one.
\<close>

record task =
  frequency :: jsstring
  lastCompleted :: "int option"
  createdAt :: int

text \<open>
  Neither function has a parameter for the current time: both call \<^verbatim>\<open>Date.now ()\<close>. The
  surroundings a call can observe are a \<open>world\<close>, of which \<open>Date_now\<close> is the reading of
  the wall clock at the call.

  The time of a \<^verbatim>\<open>Date\<close> is an integer of at most 8 640 000 000 000 000 in magnitude. While the
  clock reads less than 367 199 254 740 992 (some eleven thousand years from the epoch),
  the time since any date is below \<open>2 ^ 53\<close>, so it is a double and the subtraction that
  gives it is exact: \<^verbatim>\<open>isTaskDue\<close>, which does nothing else with it than compare it, is
  given the difference itself. \<^verbatim>\<open>getDaysOverdue\<close> computes on, and there every operation is
  rounded as the source rounds it.
\<close>

record world =
  Date_now :: int

definition referenceDate :: "'t task_scheme \<Rightarrow> int" where
  "referenceDate t = (case lastCompleted t of Some d \<Rightarrow> d | None \<Rightarrow> createdAt t)"

definition isTaskDue :: "'w world_scheme \<Rightarrow> 't task_scheme \<Rightarrow> error + bool" where
  "isTaskDue w t =
     (case parseFrequencyToMilliseconds (frequency t) of
        Inl e \<Rightarrow> Inl e
      | Inr frequencyMs \<Rightarrow>
          (let timeSinceReference = Date_now w - referenceDate t
           in Inr (timeSinceReference \<ge> frequencyMs)))"

definition getDaysOverdue :: "'w world_scheme \<Rightarrow> 't task_scheme \<Rightarrow> error + int" where
  "getDaysOverdue w t =
     (case parseFrequencyToMilliseconds (frequency t) of
        Inl e \<Rightarrow> Inl e
      | Inr frequencyMs \<Rightarrow>
          (let timeSinceReference = jsMinus (Date_now w) (referenceDate t);
               daysOverdue = \<lfloor>jsDivide (jsMinus timeSinceReference frequencyMs) (1000 * 60 * 60 * 24)\<rfloor>
           in Inr daysOverdue))"

section \<open>The reminder workflows (\<^verbatim>\<open>task-reminder-workflow.ts\<close>)\<close>

datatype reminderLevel = initial | followup | escalation

text \<open>
  The payload of one reminder workflow. \<open>taskFrequency\<close> is the field \<^verbatim>\<open>frequency\<close>;
  \<open>dueDate\<close>, the ISO string of an instant, is kept as the instant.
\<close>

record TaskReminderParams =
  taskId :: jsstring
  taskName :: jsstring
  taskFrequency :: jsstring
  reminderLevel :: reminderLevel
  dueDate :: int
  daysOverdue :: "int option"

text \<open>An element of \<^verbatim>\<open>dueTasks\<close>, the payload of the batch workflow (fields \<^verbatim>\<open>id\<close>,
  \<^verbatim>\<open>name\<close>, \<^verbatim>\<open>frequency\<close>, \<^verbatim>\<open>daysOverdue\<close>).\<close>

record dueTask =
  due_id :: jsstring
  due_name :: jsstring
  due_frequency :: jsstring
  due_daysOverdue :: int

text \<open>
  A response of the chat agent, as far as the workflow reads it: \<^verbatim>\<open>ok\<close>,
  \<^verbatim>\<open>statusText\<close>, and the field \<^verbatim>\<open>isDue\<close> of the JSON body that
  \<^verbatim>\<open>/internal/check-task\<close> answers with. A \<^verbatim>\<open>fetch\<close> that rejects is \<open>Inl\<close>.
\<close>

datatype response = Response (ok: bool) (statusText: jsstring) (isDue: bool)

text \<open>
  What a run does not decide itself is given by its host, one answer for each moment:
  the \<open>n\<close>-th interaction of the run with the outside gets the answer at \<open>n\<close>, which may
  depend on what is sent. \<open>stepRetries\<close> is how often the workflow engine runs a failed
  \<^verbatim>\<open>step.do\<close> callback again before it lets the error through.
\<close>

record host =
  fetchAddReminder :: "nat \<Rightarrow> jsstring \<Rightarrow> jsstring \<Rightarrow> jsstring \<Rightarrow> reminderLevel \<Rightarrow> int \<Rightarrow> error + response"
  fetchCheckTask :: "nat \<Rightarrow> jsstring \<Rightarrow> error + response"
  createWorkflow :: "nat \<Rightarrow> jsstring \<Rightarrow> TaskReminderParams \<Rightarrow> error + jsstring"
  generateId :: "nat \<Rightarrow> jsstring"
  clock :: "nat \<Rightarrow> int"
  stepRetries :: nat

text \<open>
  The effects of a run, in the order they happen: a call of \<^verbatim>\<open>sendReminderMessage\<close> with
  its level and overdue count, task id, message id and text, and the outcome of its
  request; a due-check with its outcome; a \<^verbatim>\<open>step.sleep\<close> with its name and duration
  argument; a \<^verbatim>\<open>TASK_REMINDER_WORKFLOW.create\<close> with the instance id, the payload and the
  outcome.
\<close>

datatype event =
    AddReminder reminderLevel int jsstring jsstring jsstring "error + response"
  | CheckTask jsstring "error + response"
  | Sleep jsstring int
  | Create jsstring TaskReminderParams "error + jsstring"

record state =
  tick :: nat
  trace :: "event list"

definition emoji :: "reminderLevel \<Rightarrow> jsstring" where
  "emoji level =
     (if level = escalation then [0xD83D, 0xDEA8]
      else if level = followup then [0x23F0]
      else [0xD83D, 0xDD14])"

text \<open>The text that \<^verbatim>\<open>sendReminderMessage\<close> builds before it sends anything.\<close>

definition reminderText :: "reminderLevel \<Rightarrow> jsstring \<Rightarrow> jsstring \<Rightarrow> int \<Rightarrow> jsstring" where
  "reminderText level name freq days =
     (if level = initial then
        emoji level @ str '' Reminder: '' @ [0x22] @ name @ [0x22] @
        str '' is due. Frequency: '' @ freq @ str ''.''
      else if level = followup then
        emoji level @ str '' Follow-up: '' @ [0x22] @ name @ [0x22] @
        str '' is still due ('' @ toString days @ str '' day'' @
        (if days \<noteq> 1 then str ''s'' else []) @ str '' overdue). Don'' @ [0x27] @
        str ''t forget!''
      else
        emoji level @ str '' URGENT: '' @ [0x22] @ name @ [0x22] @ str '' is '' @
        toString days @ str '' day'' @ (if days \<noteq> 1 then str ''s'' else []) @
        str '' overdue! Please complete this task soon.'')"

text \<open>\<^verbatim>\<open>sendReminderMessage\<close> returns the message id (\<^verbatim>\<open>success\<close> is always true) or throws.\<close>

definition sendReminderMessage ::
  "host \<Rightarrow> jsstring \<Rightarrow> jsstring \<Rightarrow> jsstring \<Rightarrow> reminderLevel \<Rightarrow> int \<Rightarrow> state \<Rightarrow> (error + jsstring) \<times> state" where
  "sendReminderMessage h tid name freq level days s =
     (let text = reminderText level name freq days;
          messageId = generateId h (tick s);
          now = clock h (tick s + 1);
          r = fetchAddReminder h (tick s + 2) messageId text tid level now;
          s' = s\<lparr>tick := tick s + 3,
                 trace := trace s @ [AddReminder level days tid messageId text r]\<rparr>
      in case r of
           Inl e \<Rightarrow> (Inl e, s')
         | Inr resp \<Rightarrow>
             if \<not> ok resp then (Inl (Error (str ''Failed to send reminder: '' @ statusText resp)), s')
             else (Inr messageId, s'))"

definition checkTaskStillDue :: "host \<Rightarrow> jsstring \<Rightarrow> state \<Rightarrow> (error + bool) \<times> state" where
  "checkTaskStillDue h tid s =
     (let r = fetchCheckTask h (tick s) tid;
          s' = s\<lparr>tick := tick s + 1, trace := trace s @ [CheckTask tid r]\<rparr>
      in case r of
           Inl e \<Rightarrow> (Inl e, s')
         | Inr resp \<Rightarrow> if \<not> ok resp then (Inr True, s') else (Inr (isDue resp), s'))"

text \<open>
  \<^verbatim>\<open>step.do\<close> of the workflow engine: the callback runs; when it throws, it runs again,
  up to the engine's number of retries, and then the error reaches the caller.
\<close>

fun attempt :: "nat \<Rightarrow> (state \<Rightarrow> (error + 'a) \<times> state) \<Rightarrow> state \<Rightarrow> (error + 'a) \<times> state" where
  "attempt 0 f s = f s"
| "attempt (Suc n) f s =
     (case f s of
        (Inr v, s') \<Rightarrow> (Inr v, s')
      | (Inl e, s') \<Rightarrow> attempt n f s')"

definition step_do :: "host \<Rightarrow> (state \<Rightarrow> (error + 'a) \<times> state) \<Rightarrow> state \<Rightarrow> (error + 'a) \<times> state" where
  "step_do h f s = attempt (stepRetries h) f s"

definition step_sleep :: "jsstring \<Rightarrow> int \<Rightarrow> state \<Rightarrow> state" where
  "step_sleep name duration s = s\<lparr>trace := trace s @ [Sleep name duration]\<rparr>"

text \<open>The two results of \<^verbatim>\<open>TaskReminderWorkflow.run\<close>: \<^verbatim>\<open>{success: true, taskId,
  reminderLevel, completed: true}\<close> and \<^verbatim>\<open>{success: false, taskId, error}\<close>.\<close>

datatype runResult = RunSuccess jsstring reminderLevel | RunFailure jsstring jsstring

definition message :: "error \<Rightarrow> jsstring" where
  "message e = (case e of Error m \<Rightarrow> m)"

text \<open>\<^verbatim>\<open>daysOverdue || 0\<close>: an absent count is 0 (and 0 is 0).\<close>

definition orZero :: "int option \<Rightarrow> int" where
  "orZero d = (case d of None \<Rightarrow> 0 | Some v \<Rightarrow> v)"

definition run :: "host \<Rightarrow> TaskReminderParams \<Rightarrow> state \<Rightarrow> runResult \<times> state" where
  "run h p s0 =
     (case step_do h (sendReminderMessage h (taskId p) (taskName p) (taskFrequency p)
                        (reminderLevel p) (orZero (daysOverdue p))) s0 of
        (Inl e, s1) \<Rightarrow> (RunFailure (taskId p) (message e), s1)
      | (Inr _, s1) \<Rightarrow>
          if reminderLevel p = initial then
            (case step_do h (checkTaskStillDue h (taskId p))
                    (step_sleep (str ''wait-for-followup'') (24 * 60 * 60) s1) of
               (Inl e, s2) \<Rightarrow> (RunFailure (taskId p) (message e), s2)
             | (Inr stillDue, s2) \<Rightarrow>
                 if stillDue then
                   (case step_do h (sendReminderMessage h (taskId p) (taskName p) (taskFrequency p)
                                      followup (orZero (daysOverdue p) + 1)) s2 of
                      (Inl e, s3) \<Rightarrow> (RunFailure (taskId p) (message e), s3)
                    | (Inr _, s3) \<Rightarrow>
                        (case step_do h (checkTaskStillDue h (taskId p))
                                (step_sleep (str ''wait-for-escalation'') (48 * 60 * 60) s3) of
                           (Inl e, s4) \<Rightarrow> (RunFailure (taskId p) (message e), s4)
                         | (Inr stillDueAfterFollowup, s4) \<Rightarrow>
                             if stillDueAfterFollowup then
                               (case step_do h (sendReminderMessage h (taskId p) (taskName p)
                                                  (taskFrequency p) escalation
                                                  (orZero (daysOverdue p) + 3)) s4 of
                                  (Inl e, s5) \<Rightarrow> (RunFailure (taskId p) (message e), s5)
                                | (Inr _, s5) \<Rightarrow> (RunSuccess (taskId p) (reminderLevel p), s5))
                             else (RunSuccess (taskId p) (reminderLevel p), s4)))
                 else (RunSuccess (taskId p) (reminderLevel p), s2))
          else (RunSuccess (taskId p) (reminderLevel p), s1))"

text \<open>
  The batch workflow. One launch is the callback that \<^verbatim>\<open>dueTasks.map\<close> runs for a task:
  it catches the failure of \<^verbatim>\<open>create\<close> itself. The callbacks start in the order of the
  tasks and \<^verbatim>\<open>Promise.all\<close> keeps that order in its result.
\<close>

datatype launchResult = Launched jsstring jsstring | LaunchFailed jsstring jsstring

fun success :: "launchResult \<Rightarrow> bool" where
  "success (Launched tid workflowId) = True"
| "success (LaunchFailed tid err) = False"

definition launch :: "host \<Rightarrow> jsstring \<Rightarrow> dueTask \<Rightarrow> state \<Rightarrow> launchResult \<times> state" where
  "launch h prefix t s =
     (let instanceId = prefix @ due_id t @ str ''-'' @ toString (clock h (tick s));
          params = \<lparr>taskId = due_id t, taskName = due_name t, taskFrequency = due_frequency t,
                    reminderLevel = initial, dueDate = clock h (tick s + 1),
                    daysOverdue = Some (due_daysOverdue t)\<rparr>;
          r = createWorkflow h (tick s + 2) instanceId params;
          s' = s\<lparr>tick := tick s + 3, trace := trace s @ [Create instanceId params r]\<rparr>
      in case r of
           Inr workflowId \<Rightarrow> (Launched (due_id t) workflowId, s')
         | Inl e \<Rightarrow> (LaunchFailed (due_id t) (message e), s'))"

fun launchAll :: "host \<Rightarrow> jsstring \<Rightarrow> dueTask list \<Rightarrow> state \<Rightarrow> launchResult list \<times> state" where
  "launchAll h prefix [] s = ([], s)"
| "launchAll h prefix (t # ts) s =
     (case launch h prefix t s of
        (r, s') \<Rightarrow> (case launchAll h prefix ts s' of (rs, s'') \<Rightarrow> (r # rs, s'')))"

text \<open>\<^verbatim>\<open>dueTasks.filter((_, index) => !results[index].success)\<close>; the two arrays have the
  same length.\<close>

definition failedTasks :: "dueTask list \<Rightarrow> launchResult list \<Rightarrow> dueTask list" where
  "failedTasks dueTasks results =
     map fst (filter (\<lambda>(t, index). \<not> success (results ! index))
                (zip dueTasks [0 ..< length dueTasks]))"

text \<open>The two results of \<^verbatim>\<open>BatchTaskReminderWorkflow.run\<close>: \<^verbatim>\<open>{success: true, processed: 0,
  message}\<close>, and \<^verbatim>\<open>{success: true, processed, successful, failed, timestamp}\<close> with the
  instant of the time stamp.\<close>

datatype batchResult =
    BatchEmpty nat jsstring
  | BatchReport (processed: nat) (successful: nat) (failed: nat) (timestamp: int)

definition runBatch :: "host \<Rightarrow> dueTask list \<Rightarrow> state \<Rightarrow> (error + batchResult) \<times> state" where
  "runBatch h dueTasks s0 =
     (if dueTasks = [] then (Inr (BatchEmpty 0 (str ''No tasks to process'')), s0)
      else
        case step_do h (\<lambda>s. case launchAll h (str ''reminder-'') dueTasks s of
                               (rs, s') \<Rightarrow> (Inr rs, s')) s0 of
          (Inl e, s1) \<Rightarrow> (Inl e, s1)
        | (Inr results, s1) \<Rightarrow>
            (let successful = length (filter success results);
                 failed = length (filter (\<lambda>r. \<not> success r) results)
             in if failed > 0 then
                  (case step_do h (\<lambda>s. case launchAll h (str ''reminder-retry-'')
                                                (failedTasks dueTasks results) s of
                                          (rs, s') \<Rightarrow> (Inr rs, s'))
                          (step_sleep (str ''retry-delay'') 300 s1) of
                     (Inl e, s2) \<Rightarrow> (Inl e, s2)
                   | (Inr retried, s2) \<Rightarrow>
                       (Inr (BatchReport (length dueTasks) successful failed (clock h (tick s2))),
                        s2\<lparr>tick := tick s2 + 1\<rparr>))
                else
                  (Inr (BatchReport (length dueTasks) successful failed (clock h (tick s1))),
                   s1\<lparr>tick := tick s1 + 1\<rparr>)))"

section \<open>What a trace shows\<close>

text \<open>
  A reminder is delivered when its request is answered with \<^verbatim>\<open>ok\<close>: the agent answers so
  only after it has saved the message. \<open>delivered\<close> lists the delivered reminders of a
  trace with their overdue counts, \<open>attempted\<close> the levels of all requests to deliver one,
  \<open>checks\<close> the answers to the due-checks, \<open>launches\<close> the task of each launch with
  whether the launch succeeded.
\<close>

fun deliveredBy :: "event \<Rightarrow> (reminderLevel \<times> int) list" where
  "deliveredBy (AddReminder level days tid mid text (Inr resp)) = (if ok resp then [(level, days)] else [])"
| "deliveredBy e = []"

fun attemptedBy :: "event \<Rightarrow> reminderLevel list" where
  "attemptedBy (AddReminder level days tid mid text r) = [level]"
| "attemptedBy e = []"

fun checkedBy :: "event \<Rightarrow> response list" where
  "checkedBy (CheckTask tid (Inr resp)) = [resp]"
| "checkedBy e = []"

fun isSleep :: "event \<Rightarrow> bool" where
  "isSleep (Sleep name duration) = True"
| "isSleep e = False"

definition delivered :: "event list \<Rightarrow> (reminderLevel \<times> int) list" where
  "delivered es = concat (map deliveredBy es)"

definition attempted :: "event list \<Rightarrow> reminderLevel list" where
  "attempted es = concat (map attemptedBy es)"

definition checks :: "event list \<Rightarrow> response list" where
  "checks es = concat (map checkedBy es)"

fun createdBy :: "event \<Rightarrow> (jsstring \<times> bool) list" where
  "createdBy (Create instanceId params r) = [(taskId params, \<not> isl r)]"
| "createdBy e = []"

definition launches :: "event list \<Rightarrow> (jsstring \<times> bool) list" where
  "launches es = concat (map createdBy es)"

text \<open>What \<^verbatim>\<open>checkTaskStillDue\<close> makes of an answer.\<close>

definition reportsDue :: "response \<Rightarrow> bool" where
  "reportsDue resp \<longleftrightarrow> \<not> ok resp \<or> isDue resp"

text \<open>A run starts with nothing done.\<close>

definition start :: state where
  "start = \<lparr>tick = 0, trace = []\<rparr>"

section \<open>The shape of a run\<close>

text \<open>
  The events of one \<^verbatim>\<open>step.do\<close>, by what they show: a delivery step that failed in every
  attempt or succeeded in its last one, a due-check step that failed or returned the
  answer \<open>resp\<close>. No step sleeps.
\<close>

definition quiet :: "event list \<Rightarrow> bool" where
  "quiet es \<longleftrightarrow> list_all (\<lambda>e. \<not> isSleep e) es"

definition sendFailed :: "reminderLevel \<Rightarrow> event list \<Rightarrow> bool" where
  "sendFailed level es \<longleftrightarrow>
     delivered es = [] \<and> set (attempted es) = {level} \<and> checks es = [] \<and> quiet es"

definition sendOk :: "reminderLevel \<Rightarrow> int \<Rightarrow> event list \<Rightarrow> bool" where
  "sendOk level days es \<longleftrightarrow>
     delivered es = [(level, days)] \<and> set (attempted es) = {level} \<and> checks es = [] \<and> quiet es"

definition checkFailed :: "event list \<Rightarrow> bool" where
  "checkFailed es \<longleftrightarrow> delivered es = [] \<and> attempted es = [] \<and> checks es = [] \<and> quiet es"

definition checkOk :: "response \<Rightarrow> event list \<Rightarrow> bool" where
  "checkOk resp es \<longleftrightarrow> delivered es = [] \<and> attempted es = [] \<and> checks es = [resp] \<and> quiet es"

text \<open>The two waits of a run, and the eight ways a run started at level \<open>initial\<close> can go.\<close>

definition waitForFollowup :: event where
  "waitForFollowup = Sleep (str ''wait-for-followup'') (24 * 60 * 60)"

definition waitForEscalation :: event where
  "waitForEscalation = Sleep (str ''wait-for-escalation'') (48 * 60 * 60)"

inductive runShape :: "TaskReminderParams \<Rightarrow> runResult \<Rightarrow> event list \<Rightarrow> bool" for p where
  initialFailed:
    "sendFailed initial A1 \<Longrightarrow> runShape p (RunFailure (taskId p) m) A1"
| firstCheckFailed:
    "sendOk initial (orZero (daysOverdue p)) A1 \<Longrightarrow> checkFailed C1 \<Longrightarrow>
     runShape p (RunFailure (taskId p) m) (A1 @ waitForFollowup # C1)"
| doneAfterFirstCheck:
    "sendOk initial (orZero (daysOverdue p)) A1 \<Longrightarrow> checkOk r1 C1 \<Longrightarrow> \<not> reportsDue r1 \<Longrightarrow>
     runShape p (RunSuccess (taskId p) initial) (A1 @ waitForFollowup # C1)"
| followupFailed:
    "sendOk initial (orZero (daysOverdue p)) A1 \<Longrightarrow> checkOk r1 C1 \<Longrightarrow> reportsDue r1 \<Longrightarrow>
     sendFailed followup A2 \<Longrightarrow>
     runShape p (RunFailure (taskId p) m) (A1 @ waitForFollowup # C1 @ A2)"
| secondCheckFailed:
    "sendOk initial (orZero (daysOverdue p)) A1 \<Longrightarrow> checkOk r1 C1 \<Longrightarrow> reportsDue r1 \<Longrightarrow>
     sendOk followup (orZero (daysOverdue p) + 1) A2 \<Longrightarrow> checkFailed C2 \<Longrightarrow>
     runShape p (RunFailure (taskId p) m) (A1 @ waitForFollowup # C1 @ A2 @ waitForEscalation # C2)"
| doneAfterSecondCheck:
    "sendOk initial (orZero (daysOverdue p)) A1 \<Longrightarrow> checkOk r1 C1 \<Longrightarrow> reportsDue r1 \<Longrightarrow>
     sendOk followup (orZero (daysOverdue p) + 1) A2 \<Longrightarrow> checkOk r2 C2 \<Longrightarrow> \<not> reportsDue r2 \<Longrightarrow>
     runShape p (RunSuccess (taskId p) initial) (A1 @ waitForFollowup # C1 @ A2 @ waitForEscalation # C2)"
| escalationFailed:
    "sendOk initial (orZero (daysOverdue p)) A1 \<Longrightarrow> checkOk r1 C1 \<Longrightarrow> reportsDue r1 \<Longrightarrow>
     sendOk followup (orZero (daysOverdue p) + 1) A2 \<Longrightarrow> checkOk r2 C2 \<Longrightarrow> reportsDue r2 \<Longrightarrow>
     sendFailed escalation A3 \<Longrightarrow>
     runShape p (RunFailure (taskId p) m) (A1 @ waitForFollowup # C1 @ A2 @ waitForEscalation # C2 @ A3)"
| escalated:
    "sendOk initial (orZero (daysOverdue p)) A1 \<Longrightarrow> checkOk r1 C1 \<Longrightarrow> reportsDue r1 \<Longrightarrow>
     sendOk followup (orZero (daysOverdue p) + 1) A2 \<Longrightarrow> checkOk r2 C2 \<Longrightarrow> reportsDue r2 \<Longrightarrow>
     sendOk escalation (orZero (daysOverdue p) + 3) A3 \<Longrightarrow>
     runShape p (RunSuccess (taskId p) initial) (A1 @ waitForFollowup # C1 @ A2 @ waitForEscalation # C2 @ A3)"

text \<open>The wait of the batch workflow before its retry.\<close>

definition retryDelay :: event where
  "retryDelay = Sleep (str ''retry-delay'') 300"

section \<open>The wording of the specification\<close>

text \<open>
  A frequency expression as the specification describes it: an optional leading "every"
  (in any case, with white space after it), then an integer written in digits, then a
  unit in singular or plural (in any case), with white space tolerated around the number
  and the unit and nothing else.
\<close>

definition leadingText :: "jsstring \<Rightarrow> bool" where
  "leadingText lead \<longleftrightarrow>
     list_all isWhiteSpace lead \<or>
     (\<exists>e w. lead = e @ w \<and> toLowerCase e = str ''every'' \<and> w \<noteq> [] \<and> list_all isWhiteSpace w)"

definition frequencyExpression :: "jsstring \<Rightarrow> bool" where
  "frequencyExpression s \<longleftrightarrow>
     (\<exists>lead ds sp u trail.
        s = lead @ ds @ sp @ u @ trail \<and> leadingText lead \<and>
        ds \<noteq> [] \<and> list_all isDigit ds \<and> list_all isWhiteSpace sp \<and>
        toLowerCase u \<in> set units \<and> list_all isWhiteSpace trail)"

text \<open>
  The message texts as the specification words them, for a level, a task name, a
  frequency, the overdue count as printed, and the word that the specification writes
  "day(s)".
\<close>

definition specText :: "reminderLevel \<Rightarrow> jsstring \<Rightarrow> jsstring \<Rightarrow> jsstring \<Rightarrow> jsstring \<Rightarrow> jsstring" where
  "specText level name freq overdueDays dayWord =
     (case level of
        initial \<Rightarrow>
          str ''Reminder: '' @ [0x22] @ name @ [0x22] @ str '' is due. Frequency: '' @ freq @ str ''.''
      | followup \<Rightarrow>
          str ''Follow-up: '' @ [0x22] @ name @ [0x22] @ str '' is still due ('' @ overdueDays @
          str '' '' @ dayWord @ str '' overdue). Don'' @ [0x27] @ str ''t forget!''
      | escalation \<Rightarrow>
          str ''URGENT: '' @ [0x22] @ name @ [0x22] @ str '' is '' @ overdueDays @
          str '' '' @ dayWord @ str '' overdue! Please complete this task soon.'')"

section \<open>Example hosts and payloads\<close>

text \<open>A host that answers every request with success and reports every task due.\<close>

definition exampleHost :: host where
  "exampleHost =
     \<lparr>fetchAddReminder = (\<lambda>n mid text tid level now. Inr (Response True (str ''OK'') False)),
      fetchCheckTask = (\<lambda>n tid. Inr (Response True (str ''OK'') True)),
      createWorkflow = (\<lambda>n instanceId p. Inr instanceId),
      generateId = (\<lambda>n. str ''msg''),
      clock = (\<lambda>n. 1700000000000),
      stepRetries = 5\<rparr>"

text \<open>A payload at level \<open>initial\<close>, a host that reports the task completed at every
  due-check, and a host whose task store answers every due-check with a failure.\<close>

definition examplePayload :: TaskReminderParams where
  "examplePayload =
     \<lparr>taskId = str ''t1'', taskName = str ''water plants'', taskFrequency = str ''7 days'',
      reminderLevel = initial, dueDate = 1700000000000, daysOverdue = Some 2\<rparr>"

definition completedHost :: host where
  "completedHost = exampleHost\<lparr>fetchCheckTask := (\<lambda>n tid. Inr (Response True (str ''OK'') False))\<rparr>"


text \<open>A host on which the first launch of a workflow fails and every later one succeeds,
  and a due task.\<close>

definition flakyHost :: host where
  "flakyHost =
     exampleHost\<lparr>createWorkflow := (\<lambda>n instanceId p.
        if n = 2 then Inl (Error (str ''instance could not be created'')) else Inr instanceId),
        clock := (\<lambda>n. 1000)\<rparr>"

definition exampleTask :: dueTask where
  "exampleTask = \<lparr>due_id = str ''t1'', due_name = str ''water plants'',
                  due_frequency = str ''7 days'', due_daysOverdue = 2\<rparr>"

section \<open>Properties of the rounding\<close>

text \<open>
  Rounding leaves an integer below \<open>2 ^ 53\<close> in magnitude as it is, so sums, differences
  and products in that range are exact; and \<^verbatim>\<open>Math.floor\<close> of the rounded quotient of
  such an integer by a positive one is the quotient rounded down.
\<close>

lemma bitLength_bounds:
  assumes "0 < n"
  shows "2 ^ bitLength n \<le> 2 * n \<and> n < 2 ^ bitLength n"
  using assms
proof (induction n rule: bitLength.induct)
  case (1 n)
  show ?case
  proof (cases "n = 1")
    case True
    then show ?thesis by (simp add: bitLength.simps [of 1] bitLength.simps [of 0])
  next
    case False
    with "1.prems" have pos: "0 < n div 2" by simp
    from "1.IH" [OF _ pos] "1.prems"
    have ih: "2 ^ bitLength (n div 2) \<le> 2 * (n div 2)" "n div 2 < 2 ^ bitLength (n div 2)"
      by simp_all
    have b: "bitLength n = Suc (bitLength (n div 2))"
      using "1.prems" by (simp add: bitLength.simps [of n])
    have "2 * (n div 2) \<le> n" "n < 2 * (n div 2) + 2" by simp_all
    with ih show ?thesis unfolding b by simp
  qed
qed

lemma shift_simps:
  "0 \<le> k \<Longrightarrow> shift x k = x * 2 ^ nat k" "k \<le> 0 \<Longrightarrow> shift x k = x"
  by (simp_all add: shift_def)

lemma exponent_lower:
  assumes "a \<noteq> 0" "0 < b"
  shows "shift b (exponentOf a b) \<le> shift \<bar>a\<bar> (- exponentOf a b)"
proof -
  define la where "la = bitLength \<bar>a\<bar>"
  define lb where "lb = bitLength b"
  define d where "d = int la - int lb"
  from assms(1) have "0 < \<bar>a\<bar>" by simp
  from bitLength_bounds [OF this] have a: "2 ^ la \<le> 2 * \<bar>a\<bar>" by (simp add: la_def)
  from bitLength_bounds [OF assms(2)] have b: "b < 2 ^ lb" by (simp add: lb_def)
  show ?thesis
  proof (cases "shift b d \<le> shift \<bar>a\<bar> (- d)")
    case True
    then show ?thesis by (simp add: exponentOf_def Let_def la_def lb_def d_def)
  next
    case False
    then have e: "exponentOf a b = d - 1"
      by (simp add: exponentOf_def Let_def la_def lb_def d_def)
    show ?thesis
    proof (cases "1 \<le> d")
      case True
      then have la: "la = lb + nat (d - 1) + 1" by (simp add: d_def)
      have "2 * (b * 2 ^ nat (d - 1)) \<le> 2 * (2 ^ lb * 2 ^ nat (d - 1))"
        using b by (simp add: mult_right_mono)
      also have "\<dots> = 2 ^ la" by (simp add: la power_add)
      also have "\<dots> \<le> 2 * \<bar>a\<bar>" by (rule a)
      finally have "b * 2 ^ nat (d - 1) \<le> \<bar>a\<bar>" by simp
      with True show ?thesis by (simp add: e shift_def)
    next
      case False
      then have lb: "lb + 1 = la + nat (1 - d)" by (simp add: d_def)
      have "2 * b \<le> 2 * 2 ^ lb" using b by simp
      also have "\<dots> = 2 ^ la * 2 ^ nat (1 - d)" using lb by (metis power_Suc power_add Suc_eq_plus1)
      also have "\<dots> \<le> 2 * \<bar>a\<bar> * 2 ^ nat (1 - d)" using a by (simp add: mult_right_mono)
      finally have "b \<le> \<bar>a\<bar> * 2 ^ nat (1 - d)" by simp
      with False show ?thesis by (simp add: e shift_def)
    qed
  qed
qed

lemma div_lower:
  fixes d :: int
  assumes "0 < d" "K * d \<le> n"
  shows "K \<le> n div d"
proof -
  from assms have "K * d div d \<le> n div d" by (intro zdiv_mono1)
  with assms(1) show ?thesis by simp
qed

lemma div_upper:
  fixes d :: int
  assumes "0 < d" "n < K * d"
  shows "n div d < K"
proof -
  have "d * (n div d) + n mod d = n" by simp
  moreover have "0 \<le> n mod d" using assms(1) by simp
  moreover have "n div d * d = d * (n div d)" by simp
  ultimately have "n div d * d \<le> n" by linarith
  with assms(2) have "n div d * d < K * d" by simp
  with assms(1) show ?thesis by (simp only: mult_less_cancel_right)
qed

lemma roundHalfEven_lower:
  assumes "0 < d" "K * d \<le> n"
  shows "K \<le> roundHalfEven n d"
proof -
  from assms have "K \<le> n div d" by (rule div_lower)
  then show ?thesis by (simp add: roundHalfEven_def Let_def)
qed

lemma roundHalfEven_upper:
  assumes "0 < d" "d < 2 * (K * d - n)"
  shows "roundHalfEven n d < K"
proof -
  define f where "f = n div d"
  define r where "r = n mod d"
  have n: "n = f * d + r" by (simp add: f_def r_def)
  have r: "0 \<le> r" "r < d" using assms(1) by (simp_all add: r_def)
  from assms(2) n have 1: "d + 2 * r < 2 * ((K - f) * d)" by (simp add: algebra_simps)
  have f1: "f < K"
  proof (rule ccontr)
    assume "\<not> f < K"
    then have "K - f \<le> 0" by simp
    then have "(K - f) * d \<le> 0" using assms(1) by (simp add: mult_le_0_iff)
    with 1 r assms(1) show False by linarith
  qed
  have f2: "f + 1 < K" if "d \<le> 2 * r"
  proof (rule ccontr)
    assume "\<not> f + 1 < K"
    with f1 have "K - f = 1" by simp
    with 1 that show False by simp
  qed
  show ?thesis
    unfolding roundHalfEven_def Let_def f_def [symmetric] r_def [symmetric]
    using f1 f2 by auto
qed

lemma floor_nearestDouble:
  assumes "\<bar>a\<bar> < 2 ^ 53" "0 < b"
  shows "\<lfloor>nearestDouble a b\<rfloor> = a div b"
proof (cases "a = 0")
  case True
  then show ?thesis by (simp add: nearestDouble_def)
next
  case False
  define e where "e = exponentOf a b"
  define j where "j = nat (52 - e)"
  note low = exponent_lower [OF False assms(2), folded e_def]
  have e52: "e \<le> 52"
  proof (rule ccontr)
    assume "\<not> e \<le> 52"
    then have e: "53 \<le> e" by simp
    then have "nat e = 53 + (nat e - 53)" by simp
    then have "(2::int) ^ nat e = 2 ^ 53 * 2 ^ (nat e - 53)" by (metis power_add)
    moreover have "(1::int) \<le> 2 ^ (nat e - 53)" by simp
    ultimately have "(2::int) ^ 53 \<le> 2 ^ nat e" by (simp add: mult_le_cancel_left1)
    moreover have "1 * 2 ^ nat e \<le> b * (2::int) ^ nat e" using assms(2) by (intro mult_right_mono) simp_all
    then have "2 ^ nat e \<le> b * (2::int) ^ nat e" by (simp only: mult_1)
    moreover from low e have "b * 2 ^ nat e \<le> \<bar>a\<bar>" by (simp add: shift_def)
    ultimately show False using assms(1) by linarith
  qed
  then have k: "e - 52 \<le> 0" "0 \<le> - (e - 52)" "nat (- (e - 52)) = j" by (simp_all add: j_def)
  define m where "m = roundHalfEven (a * 2 ^ j) b"
  have val: "nearestDouble a b = of_int m / of_int (2 ^ j)"
    using False k by (simp add: nearestDouble_def e_def [symmetric] Let_def shift_def m_def)
  have bj: "b < 2 * 2 ^ j"
  proof (cases "0 \<le> e")
    case True
    with e52 have "nat e + j = 52" by (simp add: j_def)
    then have p: "(2::int) ^ nat e * 2 ^ j = 2 ^ 52" by (metis power_add)
    from low True have "b * 2 ^ nat e \<le> \<bar>a\<bar>" by (simp add: shift_def)
    with assms(1) have "b * 2 ^ nat e < 2 * (2 ^ nat e * 2 ^ j)" unfolding p by simp
    then have "b * 2 ^ nat e < (2 * 2 ^ j) * 2 ^ nat e" by (simp add: mult_ac)
    then show ?thesis by (simp only: mult_less_cancel_right) simp
  next
    case neg: False
    then have "j = 52 + nat (- e)" by (simp add: j_def)
    then have p: "(2::int) ^ j = 2 ^ 52 * 2 ^ nat (- e)" by (metis power_add)
    from low neg have "b \<le> \<bar>a\<bar> * 2 ^ nat (- e)" by (simp add: shift_def)
    also have "\<dots> < 2 ^ 53 * 2 ^ nat (- e)" using assms(1) by (intro mult_strict_right_mono) simp_all
    finally show ?thesis unfolding p by simp
  qed
  define q where "q = a div b"
  have qa: "q * b \<le> a" "a < (q + 1) * b"
    using assms(2) unfolding q_def
    by (simp_all add: algebra_simps) (metis mult.commute mult_div_mod_eq pos_mod_sign add.commute add_increasing2 order_refl,
        metis mult.commute mult_div_mod_eq pos_mod_bound add.commute add_strict_left_mono)
  have lower: "q * 2 ^ j \<le> m"
    unfolding m_def
  proof (rule roundHalfEven_lower [OF assms(2)])
    have "q * 2 ^ j * b = (q * b) * 2 ^ j" by (simp add: mult_ac)
    also have "\<dots> \<le> a * 2 ^ j" using qa(1) by (intro mult_right_mono) simp_all
    finally show "q * 2 ^ j * b \<le> a * 2 ^ j" .
  qed
  have upper: "m < (q + 1) * 2 ^ j"
    unfolding m_def
  proof (rule roundHalfEven_upper [OF assms(2)])
    from qa(2) have "1 \<le> (q + 1) * b - a" by simp
    then have "1 * 2 ^ j \<le> ((q + 1) * b - a) * (2::int) ^ j" by (intro mult_right_mono) simp_all
    then have "2 ^ j \<le> (q + 1) * 2 ^ j * b - a * (2::int) ^ j" by (simp add: algebra_simps)
    with bj show "b < 2 * ((q + 1) * 2 ^ j * b - a * 2 ^ j)" by simp
  qed
  have "m div 2 ^ j = q"
  proof -
    have "q \<le> m div 2 ^ j" using lower by (intro div_lower) simp_all
    moreover have "m div 2 ^ j < q + 1" using upper by (intro div_upper) simp_all
    ultimately show ?thesis by simp
  qed
  moreover have "\<lfloor>nearestDouble a b\<rfloor> = m div 2 ^ j"
    unfolding val by (rule floor_divide_of_int_eq)
  ultimately show ?thesis by (simp add: q_def)
qed

lemma toDouble_exact:
  assumes "\<bar>n\<bar> \<le> 2 ^ 53"
  shows "toDouble n = n"
proof (cases "\<bar>n\<bar> < 2 ^ 53")
  case True
  then show ?thesis using floor_nearestDouble [of n 1] by (simp add: toDouble_def)
next
  case False
  with assms have "n = 9007199254740992 \<or> n = - 9007199254740992" by (simp add: abs_if split: if_splits)
  moreover have "toDouble 9007199254740992 = 9007199254740992" by code_simp
  moreover have "toDouble (- 9007199254740992) = - 9007199254740992" by code_simp
  ultimately show ?thesis by auto
qed

lemma jsTimes_exact: "\<bar>a * b\<bar> \<le> 2 ^ 53 \<Longrightarrow> jsTimes a b = a * b"
  by (simp add: jsTimes_def toDouble_exact)

lemma jsMinus_exact: "\<bar>a - b\<bar> \<le> 2 ^ 53 \<Longrightarrow> jsMinus a b = a - b"
  by (simp add: jsMinus_def toDouble_exact)

lemma floor_jsDivide: "\<bar>a\<bar> < 2 ^ 53 \<Longrightarrow> 0 < b \<Longrightarrow> \<lfloor>jsDivide a b\<rfloor> = a div b"
  by (simp add: jsDivide_def floor_nearestDouble)

section \<open>Properties of the due evaluation\<close>

lemma floor_div:
  assumes "0 < (b::int)"
  shows "x div b * b \<le> x" and "x < (x div b + 1) * b" and "x div b < 0 \<longleftrightarrow> x < 0"
proof -
  have e: "x div b * b + x mod b = x" by simp
  have m: "0 \<le> x mod b" "x mod b < b" using assms by simp_all
  show "x div b * b \<le> x" using e m by linarith
  have "(x div b + 1) * b = x div b * b + b" by (simp add: algebra_simps)
  then show "x < (x div b + 1) * b" using e m by linarith
  show "x div b < 0 \<longleftrightarrow> x < 0" using assms by (rule pos_imp_zdiv_neg_iff)
qed

lemma parse_7_days: "parseFrequencyToMilliseconds (str ''7 days'') = Inr 604800000"
  by code_simp

text \<open>
  C5. \<^verbatim>\<open>isTaskDue\<close> answers true exactly when the frequency parses and the time elapsed
  since the reference date (the last completion if there is one, the creation otherwise)
  is at least the parsed duration, and false exactly when it parses and the elapsed time
  is below it. A task with frequency "7 days" and no completion, created exactly 7 times
  24 hours before the clock reading, is due; created one second later, it is not.
\<close>

theorem isTaskDue_iff:
  "(isTaskDue w t = Inr True \<longleftrightarrow>
      (\<exists>ms. parseFrequencyToMilliseconds (frequency t) = Inr ms \<and>
            Date_now w - (case lastCompleted t of Some d \<Rightarrow> d | None \<Rightarrow> createdAt t) \<ge> ms)) \<and>
   (isTaskDue w t = Inr False \<longleftrightarrow>
      (\<exists>ms. parseFrequencyToMilliseconds (frequency t) = Inr ms \<and>
            Date_now w - (case lastCompleted t of Some d \<Rightarrow> d | None \<Rightarrow> createdAt t) < ms)) \<and>
   isTaskDue w \<lparr>frequency = str ''7 days'', lastCompleted = None,
                createdAt = Date_now w - 7 * 24 * 60 * 60 * 1000\<rparr> = Inr True \<and>
   isTaskDue w \<lparr>frequency = str ''7 days'', lastCompleted = None,
                createdAt = Date_now w - (7 * 24 * 60 * 60 * 1000 - 1000)\<rparr> = Inr False"
  by (auto simp: isTaskDue_def referenceDate_def parse_7_days split: sum.splits option.splits)

theorem isTaskDue_iff_witness:
  "isTaskDue \<lparr>Date_now = 1000000000000\<rparr>
     \<lparr>frequency = str ''7 days'', lastCompleted = Some 999395200000, createdAt = 5\<rparr> = Inr True \<and>
   isTaskDue \<lparr>Date_now = 1000000000000\<rparr>
     \<lparr>frequency = str ''7 days'', lastCompleted = Some 999395200001, createdAt = 5\<rparr> = Inr False"
  using isTaskDue_iff [of "\<lparr>Date_now = 1000000000000\<rparr>"
      "\<lparr>frequency = str ''7 days'', lastCompleted = Some 999395200000, createdAt = 5\<rparr>"]
    isTaskDue_iff [of "\<lparr>Date_now = 1000000000000\<rparr>"
      "\<lparr>frequency = str ''7 days'', lastCompleted = Some 999395200001, createdAt = 5\<rparr>"]
  by (simp add: parse_7_days)

text \<open>
  C6. When the frequency parses and the time since the reference date and the time past
  the threshold are below \<open>2 ^ 53\<close> milliseconds in magnitude, \<^verbatim>\<open>getDaysOverdue\<close> returns
  the number \<open>d\<close> of whole days in the time past the threshold, rounded down: \<open>d\<close> days
  are at most that time and \<open>d + 1\<close> days are more. Nothing is clamped: \<open>d\<close> is negative
  exactly when the task is not yet due. Two days and three hours past the threshold of a
  "7 days" task give 2; a "7 days" task created one second ago gives -7.
\<close>

theorem getDaysOverdue_floor:
  assumes "parseFrequencyToMilliseconds (frequency t) = Inr ms"
    and "\<bar>Date_now w - (case lastCompleted t of Some c \<Rightarrow> c | None \<Rightarrow> createdAt t)\<bar> \<le> 2 ^ 53"
    and "\<bar>Date_now w - (case lastCompleted t of Some c \<Rightarrow> c | None \<Rightarrow> createdAt t) - ms\<bar> < 2 ^ 53"
  shows "(\<exists>d. getDaysOverdue w t = Inr d \<and>
           d = (Date_now w - (case lastCompleted t of Some c \<Rightarrow> c | None \<Rightarrow> createdAt t) - ms) div (24 * 60 * 60 * 1000) \<and>
           d * (24 * 60 * 60 * 1000) \<le> Date_now w - (case lastCompleted t of Some c \<Rightarrow> c | None \<Rightarrow> createdAt t) - ms \<and>
           Date_now w - (case lastCompleted t of Some c \<Rightarrow> c | None \<Rightarrow> createdAt t) - ms < (d + 1) * (24 * 60 * 60 * 1000) \<and>
           (d < 0 \<longleftrightarrow> Date_now w - (case lastCompleted t of Some c \<Rightarrow> c | None \<Rightarrow> createdAt t) < ms)) \<and>
         getDaysOverdue w \<lparr>frequency = str ''7 days'', lastCompleted = None,
                           createdAt = Date_now w - (7 * 24 * 60 * 60 * 1000 + 2 * 24 * 60 * 60 * 1000 + 3 * 60 * 60 * 1000)\<rparr> = Inr 2 \<and>
         getDaysOverdue w \<lparr>frequency = str ''7 days'', lastCompleted = None,
                           createdAt = Date_now w - 1000\<rparr> = Inr (- 7)"
proof -
  define r where "r = (case lastCompleted t of Some c \<Rightarrow> c | None \<Rightarrow> createdAt t)"
  define x where "x = Date_now w - r - ms"
  define b :: int where "b = 24 * 60 * 60 * 1000"
  have b: "0 < b" "1000 * 60 * 60 * 24 = b" by (simp_all add: b_def)
  from assms(2) have e: "jsMinus (Date_now w) r = Date_now w - r"
    unfolding r_def [symmetric] by (rule jsMinus_exact)
  from assms(3) have small: "\<bar>x\<bar> < 2 ^ 53" by (simp add: x_def r_def)
  then have "jsMinus (Date_now w - r) ms = x"
    unfolding x_def by (intro jsMinus_exact) simp
  moreover have "\<lfloor>jsDivide x b\<rfloor> = x div b" using small b(1) by (rule floor_jsDivide)
  ultimately have g: "getDaysOverdue w t = Inr (x div b)"
    using assms(1) e by (simp add: getDaysOverdue_def referenceDate_def r_def [symmetric] b_def)
  have "x div b * b \<le> x \<and> x < (x div b + 1) * b \<and> (x div b < 0 \<longleftrightarrow> x < 0)"
    using floor_div [OF b(1), of x] by blast
  moreover have "x < 0 \<longleftrightarrow> Date_now w - r < ms" by (simp add: x_def)
  ultimately have general: "\<exists>d. getDaysOverdue w t = Inr d \<and> d = x div b \<and>
      d * b \<le> x \<and> x < (d + 1) * b \<and> (d < 0 \<longleftrightarrow> Date_now w - r < ms)"
    using g by blast
  have days: "\<lfloor>jsDivide 183600000 86400000\<rfloor> = 2" "\<lfloor>jsDivide (- 604799000) 86400000\<rfloor> = - 7"
    by (simp_all add: floor_jsDivide)
  have two: "getDaysOverdue w \<lparr>frequency = str ''7 days'', lastCompleted = None,
                           createdAt = Date_now w - (7 * 24 * 60 * 60 * 1000 + 2 * 24 * 60 * 60 * 1000 + 3 * 60 * 60 * 1000)\<rparr> = Inr 2"
    by (simp add: getDaysOverdue_def referenceDate_def parse_7_days jsMinus_exact days)
  have neg: "getDaysOverdue w \<lparr>frequency = str ''7 days'', lastCompleted = None,
                           createdAt = Date_now w - 1000\<rparr> = Inr (- 7)"
    by (simp add: getDaysOverdue_def referenceDate_def parse_7_days jsMinus_exact days)
  from general two neg show ?thesis unfolding x_def r_def b_def by blast
qed

theorem getDaysOverdue_floor_witness:
  "parseFrequencyToMilliseconds (frequency \<lparr>frequency = str ''7 days'', lastCompleted = None, createdAt = 0\<rparr>)
     = Inr 604800000 \<and>
   getDaysOverdue \<lparr>Date_now = 1000000000\<rparr>
     \<lparr>frequency = str ''7 days'', lastCompleted = None, createdAt = 0\<rparr> = Inr 4"
proof -
  have h: "parseFrequencyToMilliseconds
             (frequency \<lparr>frequency = str ''7 days'', lastCompleted = None, createdAt = 0\<rparr>) = Inr 604800000"
    by (simp add: parse_7_days)
  have m: "\<bar>Date_now \<lparr>Date_now = 1000000000\<rparr> -
      (case lastCompleted \<lparr>frequency = str ''7 days'', lastCompleted = None, createdAt = 0\<rparr> of
         Some c \<Rightarrow> c | None \<Rightarrow> createdAt \<lparr>frequency = str ''7 days'', lastCompleted = None, createdAt = 0\<rparr>)\<bar> \<le> 2 ^ 53"
    "\<bar>Date_now \<lparr>Date_now = 1000000000\<rparr> -
      (case lastCompleted \<lparr>frequency = str ''7 days'', lastCompleted = None, createdAt = 0\<rparr> of
         Some c \<Rightarrow> c | None \<Rightarrow> createdAt \<lparr>frequency = str ''7 days'', lastCompleted = None, createdAt = 0\<rparr>) - 604800000\<bar> < 2 ^ 53"
    by simp_all
  from getDaysOverdue_floor [OF h m]
  have "\<exists>d. getDaysOverdue \<lparr>Date_now = 1000000000\<rparr>
       \<lparr>frequency = str ''7 days'', lastCompleted = None, createdAt = 0\<rparr> = Inr d \<and>
       d = (1000000000 - 0 - 604800000) div (24 * 60 * 60 * 1000)"
    by simp
  then show ?thesis using h by simp
qed

text \<open>
  Beyond that range the result is not the floor. A task of frequency "200000000 days",
  created 86399999 milliseconds before the clock reading, is 17279999913600001
  milliseconds before its threshold, which is 200000000 days rounded down; that time is
  not a double, the subtraction yields the double 17279999913600000 before the threshold,
  and the result is -199999999.
\<close>

theorem getDaysOverdue_rounding_counterexample:
  "getDaysOverdue \<lparr>Date_now = 1700000000000\<rparr>
     \<lparr>frequency = str ''200000000 days'', lastCompleted = None, createdAt = 1699913600001\<rparr>
     = Inr (- 199999999) \<and>
   parseFrequencyToMilliseconds (str ''200000000 days'') = Inr 17280000000000000 \<and>
   (1700000000000 - 1699913600001 - 17280000000000000) div (24 * 60 * 60 * 1000) = (- 200000000 :: int)"
  by code_simp

text \<open>
  C3. The two functions take the task alone and read the wall clock themselves. Their
  results are the same in any two surroundings whose clock reads the same: of all they
  could observe, the clock reading is the one thing they depend on.
\<close>

theorem due_evaluation_depends_on_clock_reading:
  fixes w :: "'a world_scheme" and w' :: "'b world_scheme"
  assumes "Date_now w = Date_now w'"
  shows "isTaskDue w t = isTaskDue w' t \<and> getDaysOverdue w t = getDaysOverdue w' t"
  using assms by (simp add: isTaskDue_def getDaysOverdue_def split: sum.splits)

theorem due_evaluation_depends_on_clock_reading_witness:
  "Date_now \<lparr>Date_now = 604800000, \<dots> = True\<rparr> = Date_now \<lparr>Date_now = 604800000, \<dots> = (3::nat)\<rparr> \<and>
   isTaskDue \<lparr>Date_now = 604800000, \<dots> = True\<rparr>
       \<lparr>frequency = str ''7 days'', lastCompleted = None, createdAt = 0\<rparr>
     = isTaskDue \<lparr>Date_now = 604800000, \<dots> = (3::nat)\<rparr>
         \<lparr>frequency = str ''7 days'', lastCompleted = None, createdAt = 0\<rparr> \<and>
   getDaysOverdue \<lparr>Date_now = 604800000, \<dots> = True\<rparr>
       \<lparr>frequency = str ''7 days'', lastCompleted = None, createdAt = 0\<rparr>
     = getDaysOverdue \<lparr>Date_now = 604800000, \<dots> = (3::nat)\<rparr>
         \<lparr>frequency = str ''7 days'', lastCompleted = None, createdAt = 0\<rparr>"
proof -
  have h: "Date_now \<lparr>Date_now = 604800000, \<dots> = True\<rparr> = Date_now \<lparr>Date_now = 604800000, \<dots> = (3::nat)\<rparr>"
    by simp
  from due_evaluation_depends_on_clock_reading [OF h] h show ?thesis by blast
qed

text \<open>
  The same task, evaluated at two readings of the wall clock, is not due at the one and
  due at the other, and is -7 days overdue at the one and 0 days at the other: the task
  does not determine the result.
\<close>

theorem due_evaluation_reads_clock_counterexample:
  "isTaskDue \<lparr>Date_now = 0\<rparr> \<lparr>frequency = str ''7 days'', lastCompleted = None, createdAt = 0\<rparr>
     \<noteq> isTaskDue \<lparr>Date_now = 604800000\<rparr> \<lparr>frequency = str ''7 days'', lastCompleted = None, createdAt = 0\<rparr> \<and>
   getDaysOverdue \<lparr>Date_now = 0\<rparr> \<lparr>frequency = str ''7 days'', lastCompleted = None, createdAt = 0\<rparr>
     \<noteq> getDaysOverdue \<lparr>Date_now = 604800000\<rparr> \<lparr>frequency = str ''7 days'', lastCompleted = None, createdAt = 0\<rparr>"
  by code_simp

section \<open>Properties of the frequency parser\<close>

lemma ws_not_digit: "isWhiteSpace c \<Longrightarrow> \<not> isDigit c"
  by (auto simp: isWhiteSpace_def isDigit_def word_le_nat_alt)

lemma lower_ws: "isWhiteSpace c \<Longrightarrow> toLowerCase_unit c = c"
  by (auto simp: isWhiteSpace_def toLowerCase_unit_def word_le_nat_alt)

lemma lower_digit: "isDigit c \<Longrightarrow> toLowerCase_unit c = c"
  by (auto simp: isDigit_def toLowerCase_unit_def word_le_nat_alt)

lemma units_letters: "v \<in> set units \<Longrightarrow> v \<noteq> [] \<and> list_all (\<lambda>c. \<not> isWhiteSpace c \<and> \<not> isDigit c) v"
  by (auto simp: units_def str_def isWhiteSpace_def isDigit_def)

lemma small_digit:
  assumes "n < 10"
  shows "isDigit (48 + of_nat n)" and "digitValue (48 + of_nat n) = int n"
proof -
  have u: "unat (48 + of_nat n :: code_unit) = 48 + n"
    using assms by (simp add: unat_word_ariths unat_of_nat)
  show "isDigit (48 + of_nat n)"
    using assms by (simp add: isDigit_def word_le_nat_alt u)
  have "uint (48 + of_nat n :: code_unit) = int (unat (48 + of_nat n :: code_unit))"
    by (rule uint_nat)
  then show "digitValue (48 + of_nat n) = int n"
    by (simp add: digitValue_def u)
qed

lemma digitsOf_digits: "digitsOf n \<noteq> [] \<and> list_all isDigit (digitsOf n)"
proof (induction n rule: digitsOf.induct)
  case (1 n)
  show ?case
  proof (cases "n < 10")
    case True
    then show ?thesis using small_digit(1) [of n] by (simp add: digitsOf.simps [of n])
  next
    case False
    then show ?thesis using 1 small_digit(1) [of "n mod 10"]
      by (simp add: digitsOf.simps [of n])
  qed
qed

lemma mathInt_snoc: "mathInt (ds @ [c]) = 10 * mathInt ds + digitValue c"
  by (simp add: mathInt_def)

lemma mathInt_digitsOf: "mathInt (digitsOf n) = int n"
proof (induction n rule: digitsOf.induct)
  case (1 n)
  show ?case
  proof (cases "n < 10")
    case True
    then show ?thesis using small_digit(2) [of n] by (simp add: digitsOf.simps [of n] mathInt_def)
  next
    case False
    then have "mathInt (digitsOf n) = 10 * int (n div 10) + int (n mod 10)"
      using 1 small_digit(2) [of "n mod 10"]
      by (simp add: digitsOf.simps [of n] mathInt_snoc)
    then show ?thesis by (simp add: of_nat_div of_nat_mod)
  qed
qed

lemma parseInt10_digitsOf: "parseInt10 (digitsOf n) = toDouble (int n)"
  by (simp add: parseInt10_def mathInt_digitsOf)


lemma lower_in_units:
  assumes "toLowerCase u \<in> set units"
  shows "u \<noteq> []" and "list_all (\<lambda>c. \<not> isWhiteSpace c \<and> \<not> isDigit c) u"
proof -
  from units_letters [OF assms]
  have ne: "toLowerCase u \<noteq> []"
    and all: "list_all (\<lambda>c. \<not> isWhiteSpace c \<and> \<not> isDigit c) (toLowerCase u)"
    by simp_all
  from ne show "u \<noteq> []" by (simp add: toLowerCase_def)
  show "list_all (\<lambda>c. \<not> isWhiteSpace c \<and> \<not> isDigit c) u"
    unfolding list_all_iff
  proof
    fix c assume c: "c \<in> set u"
    then have in_lower: "toLowerCase_unit c \<in> set (toLowerCase u)"
      by (simp add: toLowerCase_def)
    show "\<not> isWhiteSpace c \<and> \<not> isDigit c"
    proof (intro conjI notI)
      assume "isWhiteSpace c"
      with in_lower have "c \<in> set (toLowerCase u)" "isWhiteSpace c" by (simp_all add: lower_ws)
      with all show False by (auto simp: list_all_iff)
    next
      assume "isDigit c"
      with in_lower have "c \<in> set (toLowerCase u)" "isDigit c" by (simp_all add: lower_digit)
      with all show False by (auto simp: list_all_iff)
    qed
  qed
qed

lemma span_prefix:
  assumes "list_all P xs" and "ys = [] \<or> \<not> P (hd ys)"
  shows "takeWhile P (xs @ ys) = xs" and "dropWhile P (xs @ ys) = ys"
proof -
  from assms(2) have "takeWhile P ys = []" "dropWhile P ys = ys" by (cases ys; auto)+
  with assms(1) show "takeWhile P (xs @ ys) = xs" "dropWhile P (xs @ ys) = ys"
    by (simp_all add: list_all_iff)
qed

lemma match_core:
  assumes "ds \<noteq> []" "list_all isDigit ds" "list_all isWhiteSpace sp" "toLowerCase u \<in> set units"
  shows "matchFrequency (ds @ sp @ u) = Some (ds, toLowerCase u)"
proof -
  note u = lower_in_units [OF assms(4)]
  from u have hu: "\<not> isWhiteSpace (hd u)" "\<not> isDigit (hd u)" by (cases u; simp)+
  have "sp @ u = [] \<or> \<not> isDigit (hd (sp @ u))"
    using assms(3) hu(2) by (cases sp) (auto dest: ws_not_digit)
  from span_prefix [OF assms(2) this]
  have a: "takeWhile isDigit (ds @ sp @ u) = ds" "dropWhile isDigit (ds @ sp @ u) = sp @ u" .
  have "u = [] \<or> \<not> isWhiteSpace (hd u)" using hu by simp
  from span_prefix(2) [OF assms(3) this] have b: "dropWhile isWhiteSpace (sp @ u) = u" .
  show ?thesis using assms(1,4) by (simp add: matchFrequency_def a b)
qed

lemma trim_core:
  assumes "list_all isWhiteSpace a" "list_all isWhiteSpace b" "x \<noteq> []"
    and "\<not> isWhiteSpace (hd x)" "\<not> isWhiteSpace (last x)"
  shows "trim (a @ x @ b) = x"
proof -
  have "x @ b = [] \<or> \<not> isWhiteSpace (hd (x @ b))" using assms(3,4) by simp
  from span_prefix(2) [OF assms(1) this] have 1: "dropWhile isWhiteSpace (a @ x @ b) = x @ b" .
  have "list_all isWhiteSpace (rev b)" using assms(2) by (simp add: list_all_iff)
  moreover have "rev x = [] \<or> \<not> isWhiteSpace (hd (rev x))" using assms(3,5) by (simp add: hd_rev)
  ultimately have "dropWhile isWhiteSpace (rev b @ rev x) = rev x" by (rule span_prefix(2))
  with 1 show ?thesis by (simp add: trim_def)
qed

lemma replaceEvery_other:
  assumes "s \<noteq> []" "toLowerCase_unit (hd s) \<noteq> 0x65"
  shows "replaceEvery s = s"
proof -
  from assms obtain c r where s: "s = c # r" and c: "toLowerCase_unit c \<noteq> 0x65" by (cases s) auto
  then have "toLowerCase (take 5 s) \<noteq> str ''every''" by (simp add: toLowerCase_def str_def)
  then show ?thesis by (simp add: replaceEvery_def)
qed

lemma replaceEvery_every:
  assumes "toLowerCase e = str ''every''" "w \<noteq> []" "list_all isWhiteSpace w"
    and "r = [] \<or> \<not> isWhiteSpace (hd r)"
  shows "replaceEvery (e @ w @ r) = r"
proof -
  from assms(1) have "length (toLowerCase e) = 5" by (simp add: str_def)
  then have len: "length e = 5" by (simp add: toLowerCase_def)
  from span_prefix [OF assms(3,4)] assms(2) len assms(1) show ?thesis
    by (simp add: replaceEvery_def)
qed

lemma normalized_core:
  assumes "leadingText lead" "ds \<noteq> []" "list_all isDigit ds" "list_all isWhiteSpace sp"
    "toLowerCase u \<in> set units" "list_all isWhiteSpace trail"
  shows "normalizedFrequency (lead @ ds @ sp @ u @ trail) = ds @ sp @ u"
proof -
  note u = lower_in_units [OF assms(5)]
  define x where "x = ds @ sp @ u"
  have x: "x \<noteq> []" "\<not> isWhiteSpace (hd x)" "\<not> isWhiteSpace (last x)" "isDigit (hd x)"
    using assms(2,3) u
    by (cases ds; auto simp: x_def list_all_iff dest: ws_not_digit)+
  have tr: "trim (a @ x @ trail) = x" if "list_all isWhiteSpace a" for a
    using trim_core [OF that assms(6) x(1,2,3)] .
  from assms(1) show ?thesis unfolding leadingText_def
  proof (elim disjE exE conjE)
    assume lead: "list_all isWhiteSpace lead"
    have "toLowerCase_unit (hd (lead @ x @ trail)) \<noteq> 0x65"
    proof (cases lead)
      case Nil
      with x show ?thesis
        by (cases x) (auto simp: lower_digit isDigit_def word_le_nat_alt)
    next
      case (Cons c cs)
      with lead have "isWhiteSpace c" by simp
      with Cons show ?thesis by (auto simp: lower_ws isWhiteSpace_def)
    qed
    moreover have "lead @ x @ trail \<noteq> []" using x(1) by simp
    ultimately have "replaceEvery (lead @ x @ trail) = lead @ x @ trail"
      by (rule replaceEvery_other [rotated])
    then show ?thesis using tr [OF lead] by (simp add: normalizedFrequency_def x_def)
  next
    fix e w
    assume lead: "lead = e @ w" and e: "toLowerCase e = str ''every''"
      and w: "w \<noteq> []" "list_all isWhiteSpace w"
    have "x @ trail = [] \<or> \<not> isWhiteSpace (hd (x @ trail))" using x by simp
    from replaceEvery_every [OF e w this]
    have "replaceEvery (lead @ x @ trail) = x @ trail" by (simp add: lead)
    then show ?thesis using tr [of "[]"] by (simp add: normalizedFrequency_def x_def)
  qed
qed


lemma match_shape:
  assumes "matchFrequency x = Some (ds, v)"
  shows "\<exists>sp u. x = ds @ sp @ u \<and> ds \<noteq> [] \<and> list_all isDigit ds \<and> list_all isWhiteSpace sp \<and>
           toLowerCase u = v \<and> v \<in> set units"
proof -
  define sp where "sp = takeWhile isWhiteSpace (dropWhile isDigit x)"
  define u where "u = dropWhile isWhiteSpace (dropWhile isDigit x)"
  from assms have ds: "ds = takeWhile isDigit x" "ds \<noteq> []" and v: "v = toLowerCase u" "v \<in> set units"
    by (auto simp: matchFrequency_def Let_def u_def split: if_splits)
  have "x = ds @ dropWhile isDigit x" by (simp add: ds)
  also have "dropWhile isDigit x = sp @ u" by (simp add: sp_def u_def)
  finally have "x = ds @ sp @ u" .
  moreover have "list_all isDigit ds" "list_all isWhiteSpace sp"
    by (auto simp: ds sp_def list_all_iff dest: set_takeWhileD)
  ultimately show ?thesis using ds(2) v by blast
qed

lemma trim_shape: "\<exists>a b. x = a @ trim x @ b \<and> list_all isWhiteSpace a \<and> list_all isWhiteSpace b"
proof -
  define y where "y = dropWhile isWhiteSpace x"
  define a where "a = takeWhile isWhiteSpace x"
  define b where "b = rev (takeWhile isWhiteSpace (rev y))"
  have "rev (takeWhile isWhiteSpace (rev y) @ dropWhile isWhiteSpace (rev y)) = rev (rev y)"
    by (simp only: takeWhile_dropWhile_id)
  then have "rev (dropWhile isWhiteSpace (rev y)) @ rev (takeWhile isWhiteSpace (rev y)) = y"
    by (simp only: rev_append rev_rev_ident)
  then have "y = trim x @ b" unfolding trim_def y_def b_def by (rule sym)
  moreover have "x = a @ y" by (simp add: a_def y_def)
  moreover have "list_all isWhiteSpace a" "list_all isWhiteSpace b"
    by (auto simp: a_def b_def list_all_iff dest: set_takeWhileD)
  ultimately show ?thesis by blast
qed

lemma replaceEvery_shape:
  "replaceEvery s = s \<or>
   (\<exists>e w. s = e @ w @ replaceEvery s \<and> toLowerCase e = str ''every'' \<and> w \<noteq> [] \<and> list_all isWhiteSpace w)"
proof (cases "toLowerCase (take 5 s) = str ''every'' \<and> takeWhile isWhiteSpace (drop 5 s) \<noteq> []")
  case False
  then have "replaceEvery s = s" unfolding replaceEvery_def by (rule if_not_P)
  then show ?thesis by (rule disjI1)
next
  case True
  define e where "e = take 5 s"
  define w where "w = takeWhile isWhiteSpace (drop 5 s)"
  have r: "replaceEvery s = dropWhile isWhiteSpace (drop 5 s)" using True by (simp add: replaceEvery_def)
  have "s = e @ drop 5 s" by (simp add: e_def)
  also have "drop 5 s = w @ replaceEvery s" by (simp add: w_def r)
  finally have "s = e @ w @ replaceEvery s" .
  moreover have "list_all isWhiteSpace w" by (auto simp: w_def list_all_iff dest: set_takeWhileD)
  ultimately show ?thesis using True unfolding e_def [symmetric] w_def [symmetric] by blast
qed

lemma match_normalized_iff:
  "(\<exists>m. matchFrequency (normalizedFrequency s) = Some m) \<longleftrightarrow> frequencyExpression s"
proof
  assume "frequencyExpression s"
  then obtain lead ds sp u trail where s: "s = lead @ ds @ sp @ u @ trail"
    and h: "leadingText lead" "ds \<noteq> []" "list_all isDigit ds" "list_all isWhiteSpace sp"
      "toLowerCase u \<in> set units" "list_all isWhiteSpace trail"
    unfolding frequencyExpression_def by blast
  from normalized_core [OF h] match_core [OF h(2,3,4,5)] s
  show "\<exists>m. matchFrequency (normalizedFrequency s) = Some m" by simp
next
  assume "\<exists>m. matchFrequency (normalizedFrequency s) = Some m"
  then obtain ds v where "matchFrequency (normalizedFrequency s) = Some (ds, v)" by auto
  from match_shape [OF this] obtain sp u where n: "normalizedFrequency s = ds @ sp @ u"
    and h: "ds \<noteq> []" "list_all isDigit ds" "list_all isWhiteSpace sp" "toLowerCase u \<in> set units"
    by blast
  from trim_shape [of "replaceEvery s"] obtain a b
    where r: "replaceEvery s = a @ (ds @ sp @ u) @ b" and ab: "list_all isWhiteSpace a" "list_all isWhiteSpace b"
    unfolding normalizedFrequency_def [symmetric] n by blast
  from replaceEvery_shape [of s] show "frequencyExpression s"
  proof (elim disjE exE conjE)
    assume "replaceEvery s = s"
    with r have "s = a @ ds @ sp @ u @ b" by simp
    moreover have "leadingText a" using ab by (simp add: leadingText_def)
    ultimately show ?thesis unfolding frequencyExpression_def using h ab(2) by blast
  next
    fix e w assume s: "s = e @ w @ replaceEvery s" and e: "toLowerCase e = str ''every''"
      and w: "w \<noteq> []" "list_all isWhiteSpace w"
    from s r have "s = (e @ (w @ a)) @ ds @ sp @ u @ b" by simp
    moreover have "leadingText (e @ (w @ a))"
      unfolding leadingText_def using e w ab(1) by (intro disjI2 exI [of _ e] exI [of _ "w @ a"]) simp
    ultimately show ?thesis unfolding frequencyExpression_def using h ab(2) by blast
  qed
qed

lemma parse_ms_cases:
  "parseFrequencyToMilliseconds s = Inl (invalidFrequency s) \<and> matchFrequency (normalizedFrequency s) = None \<or>
   (\<exists>ms. parseFrequencyToMilliseconds s = Inr ms) \<and> (\<exists>m. matchFrequency (normalizedFrequency s) = Some m)"
proof (cases "matchFrequency (normalizedFrequency s)")
  case None
  then show ?thesis by (simp add: parseFrequencyToMilliseconds_def)
next
  case (Some m)
  obtain ds v where m: "m = (ds, v)" by (cases m)
  with Some have "v \<in> set units" by (auto simp: matchFrequency_def Let_def split: if_splits)
  then have "\<exists>ms. parseFrequencyToMilliseconds s = Inr ms"
    unfolding parseFrequencyToMilliseconds_def Some m by (auto simp: units_def str_def)
  with Some show ?thesis by simp
qed

lemma parse_days_cases:
  "parseFrequencyToDays s = Inl (invalidFrequency s) \<and> matchFrequency (normalizedFrequency s) = None \<or>
   (\<exists>days. parseFrequencyToDays s = Inr days) \<and> (\<exists>m. matchFrequency (normalizedFrequency s) = Some m)"
proof (cases "matchFrequency (normalizedFrequency s)")
  case None
  then show ?thesis by (simp add: parseFrequencyToDays_def)
next
  case (Some m)
  obtain ds v where m: "m = (ds, v)" by (cases m)
  with Some have "v \<in> set units" by (auto simp: matchFrequency_def Let_def split: if_splits)
  then have "\<not> isl (parseFrequencyToDays s)"
    unfolding parseFrequencyToDays_def Some m by (auto simp: units_def str_def)
  then have "\<exists>days. parseFrequencyToDays s = Inr days"
    by (cases "parseFrequencyToDays s") auto
  with Some show ?thesis by simp
qed

text \<open>
  C7. Parsing fails, with the error "Invalid frequency format", exactly when the
  expression is not a frequency expression: an optional leading "every", an integer in
  digits, a recognized unit. It succeeds on every frequency expression, also on one whose
  integer is zero. \<^verbatim>\<open>parseFrequencyToDays\<close> fails on exactly the same expressions.
  "not a frequency" fails.
\<close>

theorem parse_fails_iff:
  "(parseFrequencyToMilliseconds s = Inl (invalidFrequency s)) = (\<not> frequencyExpression s) \<and>
   (\<exists>ms. parseFrequencyToMilliseconds s = Inr ms) = frequencyExpression s \<and>
   (parseFrequencyToDays s = Inl (invalidFrequency s)) = (\<not> frequencyExpression s) \<and>
   (\<exists>days. parseFrequencyToDays s = Inr days) = frequencyExpression s \<and>
   parseFrequencyToMilliseconds (str ''not a frequency'') = Inl (invalidFrequency (str ''not a frequency'')) \<and>
   parseFrequencyToDays (str ''not a frequency'') = Inl (invalidFrequency (str ''not a frequency''))"
proof -
  have nf: "matchFrequency (normalizedFrequency (str ''not a frequency'')) = None"
    by code_simp
  have 1: "parseFrequencyToMilliseconds (str ''not a frequency'') = Inl (invalidFrequency (str ''not a frequency''))"
    by (simp add: parseFrequencyToMilliseconds_def nf)
  have 2: "parseFrequencyToDays (str ''not a frequency'') = Inl (invalidFrequency (str ''not a frequency''))"
    by (simp add: parseFrequencyToDays_def nf)
  from parse_ms_cases [of s] match_normalized_iff [of s]
  have 3: "(parseFrequencyToMilliseconds s = Inl (invalidFrequency s)) = (\<not> frequencyExpression s)"
    "(\<exists>ms. parseFrequencyToMilliseconds s = Inr ms) = frequencyExpression s"
    by auto
  from parse_days_cases [of s] match_normalized_iff [of s]
  have 4: "(parseFrequencyToDays s = Inl (invalidFrequency s)) = (\<not> frequencyExpression s)"
    "(\<exists>days. parseFrequencyToDays s = Inr days) = frequencyExpression s"
    by auto
  from 1 2 3 4 show ?thesis by blast
qed


theorem parse_fails_iff_witness:
  "frequencyExpression (str ''Every  2 Weeks '') \<and> \<not> frequencyExpression (str ''2 fortnights'')"
proof -
  have 1: "parseFrequencyToMilliseconds (str ''Every  2 Weeks '') = Inr 1209600000"
    by code_simp
  have 2: "parseFrequencyToMilliseconds (str ''2 fortnights'') = Inl (invalidFrequency (str ''2 fortnights''))"
    by code_simp
  from parse_fails_iff [of "str ''Every  2 Weeks ''"] 1
  have "frequencyExpression (str ''Every  2 Weeks '')" by simp
  moreover from parse_fails_iff [of "str ''2 fortnights''"] 2
  have "\<not> frequencyExpression (str ''2 fortnights'')" by simp
  ultimately show ?thesis by simp
qed

text \<open>
  An integer that is not positive does not make parsing fail: "0 days" parses, to a
  duration of zero.
\<close>

theorem parse_zero_counterexample:
  "parseFrequencyToMilliseconds (str ''0 days'') = Inr 0 \<and> parseFrequencyToDays (str ''0 days'') = Inr 0"
  by code_simp

lemma match_forms:
  assumes "toLowerCase w \<in> set units"
  shows "matchFrequency (normalizedFrequency (digitsOf n @ str '' '' @ w)) = Some (digitsOf n, toLowerCase w)"
    and "matchFrequency (normalizedFrequency (str ''every '' @ digitsOf n @ str '' '' @ w)) = Some (digitsOf n, toLowerCase w)"
proof -
  have d: "digitsOf n \<noteq> []" "list_all isDigit (digitsOf n)" using digitsOf_digits [of n] by simp_all
  have sp: "list_all isWhiteSpace (str '' '')" by (simp add: str_def isWhiteSpace_def)
  have e: "leadingText (str ''every '')"
    unfolding leadingText_def
    by (intro disjI2 exI [of _ "str ''every''"] exI [of _ "str '' ''"])
       (simp add: str_def isWhiteSpace_def toLowerCase_def toLowerCase_unit_def)
  have n: "leadingText []" "list_all isWhiteSpace []" by (simp_all add: leadingText_def)
  from normalized_core [OF n(1) d sp assms n(2)] match_core [OF d sp assms]
  show "matchFrequency (normalizedFrequency (digitsOf n @ str '' '' @ w)) = Some (digitsOf n, toLowerCase w)"
    by simp
  from normalized_core [OF e d sp assms n(2)] match_core [OF d sp assms]
  show "matchFrequency (normalizedFrequency (str ''every '' @ digitsOf n @ str '' '' @ w)) = Some (digitsOf n, toLowerCase w)"
    by simp
qed

lemma parse_forms:
  assumes "toLowerCase w = v" "v \<in> set units"
  shows "parseFrequencyToMilliseconds (toString (int n) @ str '' '' @ w) =
           (if v = str ''second'' \<or> v = str ''seconds'' then Inr (jsTimes (toDouble (int n)) 1000)
            else if v = str ''minute'' \<or> v = str ''minutes'' then
              Inr (jsTimes (jsTimes (toDouble (int n)) 60) 1000)
            else if v = str ''hour'' \<or> v = str ''hours'' then
              Inr (jsTimes (jsTimes (jsTimes (toDouble (int n)) 60) 60) 1000)
            else if v = str ''day'' \<or> v = str ''days'' then
              Inr (jsTimes (jsTimes (jsTimes (jsTimes (toDouble (int n)) 24) 60) 60) 1000)
            else if v = str ''week'' \<or> v = str ''weeks'' then
              Inr (jsTimes (jsTimes (jsTimes (jsTimes (jsTimes (toDouble (int n)) 7) 24) 60) 60) 1000)
            else Inr (jsTimes (jsTimes (jsTimes (jsTimes (jsTimes (toDouble (int n)) 30) 24) 60) 60) 1000))"
    and "parseFrequencyToMilliseconds (str ''every '' @ toString (int n) @ str '' '' @ w) =
           parseFrequencyToMilliseconds (toString (int n) @ str '' '' @ w)"
proof -
  from assms have w: "toLowerCase w \<in> set units" by simp
  have t: "toString (int n) = digitsOf n" by (simp add: toString_def)
  have last: "v = str ''month'' \<or> v = str ''months''"
    if "v \<noteq> str ''second''" "v \<noteq> str ''seconds''" "v \<noteq> str ''minute''" "v \<noteq> str ''minutes''"
      "v \<noteq> str ''hour''" "v \<noteq> str ''hours''" "v \<noteq> str ''day''" "v \<noteq> str ''days''"
      "v \<noteq> str ''week''" "v \<noteq> str ''weeks''"
    using assms(2) that by (simp add: units_def)
  show "parseFrequencyToMilliseconds (toString (int n) @ str '' '' @ w) =
           (if v = str ''second'' \<or> v = str ''seconds'' then Inr (jsTimes (toDouble (int n)) 1000)
            else if v = str ''minute'' \<or> v = str ''minutes'' then
              Inr (jsTimes (jsTimes (toDouble (int n)) 60) 1000)
            else if v = str ''hour'' \<or> v = str ''hours'' then
              Inr (jsTimes (jsTimes (jsTimes (toDouble (int n)) 60) 60) 1000)
            else if v = str ''day'' \<or> v = str ''days'' then
              Inr (jsTimes (jsTimes (jsTimes (jsTimes (toDouble (int n)) 24) 60) 60) 1000)
            else if v = str ''week'' \<or> v = str ''weeks'' then
              Inr (jsTimes (jsTimes (jsTimes (jsTimes (jsTimes (toDouble (int n)) 7) 24) 60) 60) 1000)
            else Inr (jsTimes (jsTimes (jsTimes (jsTimes (jsTimes (toDouble (int n)) 30) 24) 60) 60) 1000))"
    unfolding parseFrequencyToMilliseconds_def t match_forms(1) [OF w] assms(1)
    using last by (simp add: parseInt10_digitsOf)
  show "parseFrequencyToMilliseconds (str ''every '' @ toString (int n) @ str '' '' @ w) =
           parseFrequencyToMilliseconds (toString (int n) @ str '' '' @ w)"
    unfolding parseFrequencyToMilliseconds_def t match_forms [OF w] by simp
qed

lemma chain_exact:
  assumes "0 \<le> v"
  shows "v * 1000 \<le> 2 ^ 53 \<Longrightarrow> jsTimes (toDouble v) 1000 = v * 1000"
    and "v * (60 * 1000) \<le> 2 ^ 53 \<Longrightarrow> jsTimes (jsTimes (toDouble v) 60) 1000 = v * (60 * 1000)"
    and "v * (60 * 60 * 1000) \<le> 2 ^ 53 \<Longrightarrow>
           jsTimes (jsTimes (jsTimes (toDouble v) 60) 60) 1000 = v * (60 * 60 * 1000)"
    and "v * (24 * 60 * 60 * 1000) \<le> 2 ^ 53 \<Longrightarrow>
           jsTimes (jsTimes (jsTimes (jsTimes (toDouble v) 24) 60) 60) 1000 = v * (24 * 60 * 60 * 1000)"
    and "v * (7 * (24 * 60 * 60 * 1000)) \<le> 2 ^ 53 \<Longrightarrow>
           jsTimes (jsTimes (jsTimes (jsTimes (jsTimes (toDouble v) 7) 24) 60) 60) 1000 =
             v * (7 * (24 * 60 * 60 * 1000))"
    and "v * (30 * (24 * 60 * 60 * 1000)) \<le> 2 ^ 53 \<Longrightarrow>
           jsTimes (jsTimes (jsTimes (jsTimes (jsTimes (toDouble v) 30) 24) 60) 60) 1000 =
             v * (30 * (24 * 60 * 60 * 1000))"
  using assms by (simp_all add: jsTimes_exact toDouble_exact)

text \<open>
  C8. For every number \<open>n\<close> and each of the six units, the plural spelling parses to the
  same duration as the singular one, and so does either with a leading "every"; there is
  such a duration, and it is \<open>n\<close> times the length of the unit when that product is at
  most \<open>2 ^ 53\<close> milliseconds. One week is 7 times 24 hours and one month is 30 times
  24 hours.
\<close>

theorem parse_singular_plural:
  assumes "u \<in> {''second'', ''minute'', ''hour'', ''day'', ''week'', ''month''}"
  shows
   "parseFrequencyToMilliseconds (toString (int n) @ str '' '' @ str u @ str ''s'') =
      parseFrequencyToMilliseconds (toString (int n) @ str '' '' @ str u) \<and>
    parseFrequencyToMilliseconds (str ''every '' @ toString (int n) @ str '' '' @ str u) =
      parseFrequencyToMilliseconds (toString (int n) @ str '' '' @ str u) \<and>
    parseFrequencyToMilliseconds (str ''every '' @ toString (int n) @ str '' '' @ str u @ str ''s'') =
      parseFrequencyToMilliseconds (toString (int n) @ str '' '' @ str u) \<and>
    (\<exists>ms. parseFrequencyToMilliseconds (toString (int n) @ str '' '' @ str u) = Inr ms \<and>
       (int n * (if u = ''second'' then 1000
                 else if u = ''minute'' then 60 * 1000
                 else if u = ''hour'' then 60 * 60 * 1000
                 else if u = ''day'' then 24 * 60 * 60 * 1000
                 else if u = ''week'' then 7 * (24 * 60 * 60 * 1000)
                 else 30 * (24 * 60 * 60 * 1000)) \<le> 2 ^ 53 \<longrightarrow>
        ms = int n * (if u = ''second'' then 1000
                      else if u = ''minute'' then 60 * 1000
                      else if u = ''hour'' then 60 * 60 * 1000
                      else if u = ''day'' then 24 * 60 * 60 * 1000
                      else if u = ''week'' then 7 * (24 * 60 * 60 * 1000)
                      else 30 * (24 * 60 * 60 * 1000)))) \<and>
    parseFrequencyToMilliseconds (str ''1 week'') = Inr (7 * (24 * 60 * 60 * 1000)) \<and>
    parseFrequencyToMilliseconds (str ''1 month'') = Inr (30 * (24 * 60 * 60 * 1000))"
proof -
  from assms have cases: "u = ''second'' \<or> u = ''minute'' \<or> u = ''hour'' \<or> u = ''day'' \<or>
      u = ''week'' \<or> u = ''month''"
    by simp
  define v where "v = toDouble (int n)"
  define chain where "chain =
     (if u = ''second'' then jsTimes v 1000
      else if u = ''minute'' then jsTimes (jsTimes v 60) 1000
      else if u = ''hour'' then jsTimes (jsTimes (jsTimes v 60) 60) 1000
      else if u = ''day'' then jsTimes (jsTimes (jsTimes (jsTimes v 24) 60) 60) 1000
      else if u = ''week'' then jsTimes (jsTimes (jsTimes (jsTimes (jsTimes v 7) 24) 60) 60) 1000
      else jsTimes (jsTimes (jsTimes (jsTimes (jsTimes v 30) 24) 60) 60) 1000)"
  have lower: "toLowerCase (str u) = str u" "toLowerCase (str u @ str ''s'') = str u @ str ''s''"
    using cases by (elim disjE; simp add: str_def toLowerCase_def toLowerCase_unit_def)+
  have mem: "str u \<in> set units" "str u @ str ''s'' \<in> set units"
    using cases by (elim disjE; simp add: units_def str_def)+
  have sing: "parseFrequencyToMilliseconds (toString (int n) @ str '' '' @ str u) = Inr chain"
    unfolding parse_forms(1) [OF lower(1) mem(1)] chain_def v_def
    using cases by (elim disjE) (simp_all add: str_def)
  have plur: "parseFrequencyToMilliseconds (toString (int n) @ str '' '' @ str u @ str ''s'') = Inr chain"
    unfolding parse_forms(1) [OF lower(2) mem(2)] chain_def v_def
    using cases by (elim disjE) (simp_all add: str_def)
  have every: "parseFrequencyToMilliseconds (str ''every '' @ toString (int n) @ str '' '' @ str u) =
      parseFrequencyToMilliseconds (toString (int n) @ str '' '' @ str u)"
    "parseFrequencyToMilliseconds (str ''every '' @ toString (int n) @ str '' '' @ str u @ str ''s'') =
      parseFrequencyToMilliseconds (toString (int n) @ str '' '' @ str u @ str ''s'')"
    using parse_forms(2) [OF lower(1) mem(1)] parse_forms(2) [OF lower(2) mem(2)] by simp_all
  have exact: "chain = int n * (if u = ''second'' then 1000
                      else if u = ''minute'' then 60 * 1000
                      else if u = ''hour'' then 60 * 60 * 1000
                      else if u = ''day'' then 24 * 60 * 60 * 1000
                      else if u = ''week'' then 7 * (24 * 60 * 60 * 1000)
                      else 30 * (24 * 60 * 60 * 1000))"
    if "int n * (if u = ''second'' then 1000
                 else if u = ''minute'' then 60 * 1000
                 else if u = ''hour'' then 60 * 60 * 1000
                 else if u = ''day'' then 24 * 60 * 60 * 1000
                 else if u = ''week'' then 7 * (24 * 60 * 60 * 1000)
                 else 30 * (24 * 60 * 60 * 1000)) \<le> 2 ^ 53"
  proof -
    have n: "0 \<le> int n" by simp
    from cases that show ?thesis
      unfolding chain_def v_def
      by (elim disjE) (simp_all add: chain_exact [OF n, simplified])
  qed
  have week: "parseFrequencyToMilliseconds (str ''1 week'') = Inr (7 * (24 * 60 * 60 * 1000))"
    by code_simp
  have month: "parseFrequencyToMilliseconds (str ''1 month'') = Inr (30 * (24 * 60 * 60 * 1000))"
    by code_simp
  from exact have dur: "\<exists>ms. parseFrequencyToMilliseconds (toString (int n) @ str '' '' @ str u) = Inr ms \<and>
       (int n * (if u = ''second'' then 1000
                 else if u = ''minute'' then 60 * 1000
                 else if u = ''hour'' then 60 * 60 * 1000
                 else if u = ''day'' then 24 * 60 * 60 * 1000
                 else if u = ''week'' then 7 * (24 * 60 * 60 * 1000)
                 else 30 * (24 * 60 * 60 * 1000)) \<le> 2 ^ 53 \<longrightarrow>
        ms = int n * (if u = ''second'' then 1000
                      else if u = ''minute'' then 60 * 1000
                      else if u = ''hour'' then 60 * 60 * 1000
                      else if u = ''day'' then 24 * 60 * 60 * 1000
                      else if u = ''week'' then 7 * (24 * 60 * 60 * 1000)
                      else 30 * (24 * 60 * 60 * 1000)))"
    unfolding sing by (intro exI [of _ chain] conjI impI refl)
  from sing plur every week month dur show ?thesis by simp
qed

theorem parse_singular_plural_witness:
  "parseFrequencyToMilliseconds (str ''3 days'') = Inr 259200000 \<and>
   parseFrequencyToMilliseconds (str ''every 3 day'') = Inr 259200000 \<and>
   parseFrequencyToMilliseconds (str ''every 3 days'') = Inr 259200000 \<and>
   parseFrequencyToMilliseconds (str ''3 day'') = Inr 259200000"
proof -
  have u: "''day'' \<in> {''second'', ''minute'', ''hour'', ''day'', ''week'', ''month''}" by simp
  have t: "toString (int 3) = str ''3''" by code_simp
  from parse_singular_plural [OF u, of 3] show ?thesis
    unfolding t by (simp add: str_def)
qed

text \<open>
  Beyond \<open>2 ^ 53\<close> the duration is the product as the doubles give it: the integer
  9007199254740993 is read as 9007199254740992, so that many seconds are 9007199254740992000
  milliseconds, for the singular and the plural alike.
\<close>

lemma parse_rounds:
  "parseFrequencyToMilliseconds (str ''9007199254740993 seconds'') = Inr 9007199254740992000 \<and>
   parseFrequencyToMilliseconds (str ''9007199254740993 second'') = Inr 9007199254740992000"
  by code_simp

section \<open>Properties of the reminder workflow\<close>

lemma delivered_simps [simp]:
  "delivered [] = []" "delivered (e # es) = deliveredBy e @ delivered es"
  "delivered (xs @ ys) = delivered xs @ delivered ys"
  by (simp_all add: delivered_def)

lemma attempted_simps [simp]:
  "attempted [] = []" "attempted (e # es) = attemptedBy e @ attempted es"
  "attempted (xs @ ys) = attempted xs @ attempted ys"
  by (simp_all add: attempted_def)

lemma checks_simps [simp]:
  "checks [] = []" "checks (e # es) = checkedBy e @ checks es"
  "checks (xs @ ys) = checks xs @ checks ys"
  by (simp_all add: checks_def)

lemma quiet_simps [simp]:
  "quiet []" "quiet (e # es) \<longleftrightarrow> \<not> isSleep e \<and> quiet es"
  "quiet (xs @ ys) \<longleftrightarrow> quiet xs \<and> quiet ys"
  by (simp_all add: quiet_def)

lemma send_once:
  assumes "sendReminderMessage h tid name freq level days s = (r, s')"
  shows "\<exists>e. trace s' = trace s @ [e] \<and> attemptedBy e = [level] \<and> checkedBy e = [] \<and> \<not> isSleep e \<and>
             deliveredBy e = (if isl r then [] else [(level, days)])"
  using assms by (auto simp: sendReminderMessage_def Let_def split: sum.splits if_splits)

lemma attempt_send:
  assumes "attempt n (sendReminderMessage h tid name freq level days) s = (r, s')"
  shows "\<exists>es. trace s' = trace s @ es \<and> (if isl r then sendFailed level es else sendOk level days es)"
  using assms
proof (induction n arbitrary: s)
  case 0
  then have "sendReminderMessage h tid name freq level days s = (r, s')" by simp
  from send_once [OF this] show ?case by (auto simp: sendFailed_def sendOk_def)
next
  case (Suc n)
  obtain r1 s1 where first: "sendReminderMessage h tid name freq level days s = (r1, s1)"
    by (cases "sendReminderMessage h tid name freq level days s")
  from send_once [OF first] obtain e where e: "trace s1 = trace s @ [e]" "attemptedBy e = [level]"
    "checkedBy e = []" "\<not> isSleep e" "deliveredBy e = (if isl r1 then [] else [(level, days)])"
    by blast
  show ?case
  proof (cases r1)
    case (Inr v)
    with Suc.prems first have "r = Inr v" "s' = s1" by simp_all
    with e Inr show ?thesis by (auto simp: sendOk_def)
  next
    case (Inl err)
    with Suc.prems first have "attempt n (sendReminderMessage h tid name freq level days) s1 = (r, s')"
      by simp
    from Suc.IH [OF this] obtain es where es: "trace s' = trace s1 @ es"
      "if isl r then sendFailed level es else sendOk level days es" by blast
    from es(1) e(1) have "trace s' = trace s @ (e # es)" by simp
    moreover from es(2) e Inl have "if isl r then sendFailed level (e # es) else sendOk level days (e # es)"
      by (auto simp: sendFailed_def sendOk_def split: if_splits)
    ultimately show ?thesis by blast
  qed
qed

lemma check_once:
  assumes "checkTaskStillDue h tid s = (r, s')"
  shows "\<exists>e. trace s' = trace s @ [e] \<and> attemptedBy e = [] \<and> deliveredBy e = [] \<and> \<not> isSleep e \<and>
             (case r of Inl err \<Rightarrow> checkedBy e = []
              | Inr b \<Rightarrow> \<exists>resp. checkedBy e = [resp] \<and> b = reportsDue resp)"
  using assms by (auto simp: checkTaskStillDue_def Let_def reportsDue_def split: sum.splits if_splits)

lemma attempt_check:
  assumes "attempt n (checkTaskStillDue h tid) s = (r, s')"
  shows "\<exists>es. trace s' = trace s @ es \<and>
           (case r of Inl err \<Rightarrow> checkFailed es
            | Inr b \<Rightarrow> \<exists>resp. checkOk resp es \<and> b = reportsDue resp)"
  using assms
proof (induction n arbitrary: s)
  case 0
  then have "checkTaskStillDue h tid s = (r, s')" by simp
  from check_once [OF this] show ?case
    by (cases r) (auto simp: checkFailed_def checkOk_def)
next
  case (Suc n)
  obtain r1 s1 where first: "checkTaskStillDue h tid s = (r1, s1)"
    by (cases "checkTaskStillDue h tid s")
  from check_once [OF first] obtain e where e: "trace s1 = trace s @ [e]" "attemptedBy e = []"
    "deliveredBy e = []" "\<not> isSleep e"
    "case r1 of Inl err \<Rightarrow> checkedBy e = [] | Inr b \<Rightarrow> \<exists>resp. checkedBy e = [resp] \<and> b = reportsDue resp"
    by blast
  show ?case
  proof (cases r1)
    case (Inr b)
    with Suc.prems first have "r = Inr b" "s' = s1" by simp_all
    with e Inr show ?thesis by (auto simp: checkOk_def)
  next
    case (Inl err)
    with Suc.prems first have "attempt n (checkTaskStillDue h tid) s1 = (r, s')" by simp
    from Suc.IH [OF this] obtain es where es: "trace s' = trace s1 @ es"
      "case r of Inl err \<Rightarrow> checkFailed es | Inr b \<Rightarrow> \<exists>resp. checkOk resp es \<and> b = reportsDue resp"
      by blast
    from es(1) e(1) have "trace s' = trace s @ (e # es)" by simp
    moreover from es(2) e Inl
    have "case r of Inl err \<Rightarrow> checkFailed (e # es) | Inr b \<Rightarrow> \<exists>resp. checkOk resp (e # es) \<and> b = reportsDue resp"
      by (cases r) (auto simp: checkFailed_def checkOk_def)
    ultimately show ?thesis by blast
  qed
qed



lemma step_send:
  assumes "step_do h (sendReminderMessage h tid name freq level days) s = (r, s')"
  shows "\<exists>es. trace s' = trace s @ es \<and> (isl r \<longrightarrow> sendFailed level es) \<and>
           (\<not> isl r \<longrightarrow> sendOk level days es)"
  using attempt_send [of "stepRetries h" h tid name freq level days s r s'] assms
  unfolding step_do_def by (auto split: if_splits)

lemma step_check:
  assumes "step_do h (checkTaskStillDue h tid) (step_sleep name duration s) = (r, s')"
  shows "\<exists>es. trace s' = trace s @ Sleep name duration # es \<and> (isl r \<longrightarrow> checkFailed es) \<and>
           (\<forall>b. r = Inr b \<longrightarrow> (\<exists>resp. checkOk resp es \<and> b = reportsDue resp))"
proof -
  from attempt_check [of "stepRetries h" h tid "step_sleep name duration s" r s'] assms
  obtain es where es: "trace s' = trace (step_sleep name duration s) @ es"
    "case r of Inl err \<Rightarrow> checkFailed es | Inr b \<Rightarrow> \<exists>resp. checkOk resp es \<and> b = reportsDue resp"
    unfolding step_do_def by blast
  from es(1) have "trace s' = trace s @ Sleep name duration # es" by (simp add: step_sleep_def)
  moreover from es(2) have "isl r \<longrightarrow> checkFailed es" by (cases r) auto
  moreover from es(2) have "\<forall>b. r = Inr b \<longrightarrow> (\<exists>resp. checkOk resp es \<and> b = reportsDue resp)" by auto
  ultimately show ?thesis by blast
qed

lemmas run_eval = prod.case sum.case if_True if_False simp_thms prod.inject

lemma run_shape:
  assumes lvl: "reminderLevel p = initial" and run: "run h p s0 = (res, s')"
  shows "\<exists>es. trace s' = trace s0 @ es \<and> runShape p res es"
proof -
  obtain r1 s1 where 1: "step_do h (sendReminderMessage h (taskId p) (taskName p) (taskFrequency p)
      initial (orZero (daysOverdue p))) s0 = (r1, s1)"
    by (rule prod.exhaust)
  from step_send [OF 1] obtain A1 where A1: "trace s1 = trace s0 @ A1"
    "isl r1 \<longrightarrow> sendFailed initial A1" "\<not> isl r1 \<longrightarrow> sendOk initial (orZero (daysOverdue p)) A1"
    by blast
  show ?thesis
  proof (cases r1)
    case (Inl e)
    from run have res: "res = RunFailure (taskId p) (message e)" "s' = s1"
      unfolding run_def lvl 1 Inl by (simp_all only: run_eval)
    from A1 Inl have "runShape p res A1" unfolding res by (intro runShape.initialFailed) simp
    with A1(1) res(2) show ?thesis by blast
  next
    case r1: (Inr m1)
    with A1 have okA1: "sendOk initial (orZero (daysOverdue p)) A1" by simp
    obtain r2 s2 where 2: "step_do h (checkTaskStillDue h (taskId p))
        (step_sleep (str ''wait-for-followup'') (24 * 60 * 60) s1) = (r2, s2)"
      by (rule prod.exhaust)
    have "\<exists>es. trace s2 = trace s1 @ waitForFollowup # es \<and> (isl r2 \<longrightarrow> checkFailed es) \<and>
           (\<forall>b. r2 = Inr b \<longrightarrow> (\<exists>resp. checkOk resp es \<and> b = reportsDue resp))"
      unfolding waitForFollowup_def by (rule step_check [OF 2])
    then obtain C1 where C1: "trace s2 = trace s1 @ waitForFollowup # C1"
      "isl r2 \<longrightarrow> checkFailed C1"
      "\<forall>b. r2 = Inr b \<longrightarrow> (\<exists>resp. checkOk resp C1 \<and> b = reportsDue resp)"
      by blast
    have tr2: "trace s2 = trace s0 @ A1 @ waitForFollowup # C1" using A1(1) C1(1) by simp
    show ?thesis
    proof (cases r2)
      case (Inl e)
      from run have res: "res = RunFailure (taskId p) (message e)" "s' = s2"
        unfolding run_def lvl 1 r1 by (simp_all only: run_eval 2 Inl)
      from C1 Inl have "checkFailed C1" by simp
      with okA1 have "runShape p res (A1 @ waitForFollowup # C1)"
        unfolding res by (rule runShape.firstCheckFailed)
      with tr2 res(2) show ?thesis by blast
    next
      case r2: (Inr stillDue)
      with C1 obtain resp1 where resp1: "checkOk resp1 C1" "stillDue = reportsDue resp1" by blast
      show ?thesis
      proof (cases stillDue)
        case False
        from run have res: "res = RunSuccess (taskId p) initial" "s' = s2"
          unfolding run_def lvl 1 r1 by (simp_all only: run_eval 2 r2 False)
        from resp1 False have "\<not> reportsDue resp1" by simp
        with okA1 resp1(1) have "runShape p res (A1 @ waitForFollowup # C1)"
          unfolding res by (rule runShape.doneAfterFirstCheck)
        with tr2 res(2) show ?thesis by blast
      next
        case True
        with resp1 have due1: "reportsDue resp1" by simp
        obtain r3 s3 where 3: "step_do h (sendReminderMessage h (taskId p) (taskName p) (taskFrequency p)
            followup (orZero (daysOverdue p) + 1)) s2 = (r3, s3)"
          by (rule prod.exhaust)
        from step_send [OF 3] obtain A2 where A2: "trace s3 = trace s2 @ A2"
          "isl r3 \<longrightarrow> sendFailed followup A2" "\<not> isl r3 \<longrightarrow> sendOk followup (orZero (daysOverdue p) + 1) A2"
          by blast
        have tr3: "trace s3 = trace s0 @ A1 @ waitForFollowup # C1 @ A2" using tr2 A2(1) by simp
        show ?thesis
        proof (cases r3)
          case (Inl e)
          from run have res: "res = RunFailure (taskId p) (message e)" "s' = s3"
            unfolding run_def lvl 1 r1 by (simp_all only: run_eval 2 r2 True 3 Inl)
          from A2 Inl have "sendFailed followup A2" by simp
          with okA1 resp1(1) due1 have "runShape p res (A1 @ waitForFollowup # C1 @ A2)"
            unfolding res by (rule runShape.followupFailed)
          with tr3 res(2) show ?thesis by blast
        next
          case r3: (Inr m3)
          with A2 have okA2: "sendOk followup (orZero (daysOverdue p) + 1) A2" by simp
          obtain r4 s4 where 4: "step_do h (checkTaskStillDue h (taskId p))
              (step_sleep (str ''wait-for-escalation'') (48 * 60 * 60) s3) = (r4, s4)"
            by (rule prod.exhaust)
          have "\<exists>es. trace s4 = trace s3 @ waitForEscalation # es \<and> (isl r4 \<longrightarrow> checkFailed es) \<and>
             (\<forall>b. r4 = Inr b \<longrightarrow> (\<exists>resp. checkOk resp es \<and> b = reportsDue resp))"
            unfolding waitForEscalation_def by (rule step_check [OF 4])
          then obtain C2 where C2: "trace s4 = trace s3 @ waitForEscalation # C2"
            "isl r4 \<longrightarrow> checkFailed C2"
            "\<forall>b. r4 = Inr b \<longrightarrow> (\<exists>resp. checkOk resp C2 \<and> b = reportsDue resp)"
            by blast
          have tr4: "trace s4 = trace s0 @ A1 @ waitForFollowup # C1 @ A2 @ waitForEscalation # C2"
            using tr3 C2(1) by simp
          show ?thesis
          proof (cases r4)
            case (Inl e)
            from run have res: "res = RunFailure (taskId p) (message e)" "s' = s4"
              unfolding run_def lvl 1 r1 by (simp_all only: run_eval 2 r2 True 3 r3 4 Inl)
            from C2 Inl have "checkFailed C2" by simp
            with okA1 resp1(1) due1 okA2
            have "runShape p res (A1 @ waitForFollowup # C1 @ A2 @ waitForEscalation # C2)"
              unfolding res by (rule runShape.secondCheckFailed)
            with tr4 res(2) show ?thesis by blast
          next
            case r4: (Inr stillDue2)
            with C2 obtain resp2 where resp2: "checkOk resp2 C2" "stillDue2 = reportsDue resp2" by blast
            show ?thesis
            proof (cases stillDue2)
              case False
              from run have res: "res = RunSuccess (taskId p) initial" "s' = s4"
                unfolding run_def lvl 1 r1 by (simp_all only: run_eval 2 r2 True 3 r3 4 r4 False)
              from resp2 False have "\<not> reportsDue resp2" by simp
              with okA1 resp1(1) due1 okA2 resp2(1)
              have "runShape p res (A1 @ waitForFollowup # C1 @ A2 @ waitForEscalation # C2)"
                unfolding res by (rule runShape.doneAfterSecondCheck)
              with tr4 res(2) show ?thesis by blast
            next
              case stillDue2: True
              with resp2 have due2: "reportsDue resp2" by simp
              obtain r5 s5 where 5: "step_do h (sendReminderMessage h (taskId p) (taskName p) (taskFrequency p)
                  escalation (orZero (daysOverdue p) + 3)) s4 = (r5, s5)"
                by (rule prod.exhaust)
              from step_send [OF 5] obtain A3 where A3: "trace s5 = trace s4 @ A3"
                "isl r5 \<longrightarrow> sendFailed escalation A3"
                "\<not> isl r5 \<longrightarrow> sendOk escalation (orZero (daysOverdue p) + 3) A3"
                by blast
              have tr5: "trace s5 = trace s0 @ A1 @ waitForFollowup # C1 @ A2 @ waitForEscalation # C2 @ A3"
                using tr4 A3(1) by simp
              show ?thesis
              proof (cases r5)
                case (Inl e)
                from run have res: "res = RunFailure (taskId p) (message e)" "s' = s5"
                  unfolding run_def lvl 1 r1 by (simp_all only: run_eval 2 r2 True 3 r3 4 r4 stillDue2 5 Inl)
                from A3 Inl have "sendFailed escalation A3" by simp
                with okA1 resp1(1) due1 okA2 resp2(1) due2
                have "runShape p res (A1 @ waitForFollowup # C1 @ A2 @ waitForEscalation # C2 @ A3)"
                  unfolding res by (rule runShape.escalationFailed)
                with tr5 res(2) show ?thesis by blast
              next
                case r5: (Inr m5)
                from run have res: "res = RunSuccess (taskId p) initial" "s' = s5"
                  unfolding run_def lvl 1 r1 by (simp_all only: run_eval 2 r2 True 3 r3 4 r4 stillDue2 5 r5)
                from A3 r5 have "sendOk escalation (orZero (daysOverdue p) + 3) A3" by simp
                with okA1 resp1(1) due1 okA2 resp2(1) due2
                have "runShape p res (A1 @ waitForFollowup # C1 @ A2 @ waitForEscalation # C2 @ A3)"
                  unfolding res by (rule runShape.escalated)
                with tr5 res(2) show ?thesis by blast
              qed
            qed
          qed
        qed
      qed
    qed
  qed
qed


lemma wait_simps [simp]:
  "deliveredBy waitForFollowup = []" "attemptedBy waitForFollowup = []"
  "checkedBy waitForFollowup = []" "isSleep waitForFollowup"
  "deliveredBy waitForEscalation = []" "attemptedBy waitForEscalation = []"
  "checkedBy waitForEscalation = []" "isSleep waitForEscalation"
  by (simp_all add: waitForFollowup_def waitForEscalation_def)

lemma segment_simps:
  "sendOk level days es \<Longrightarrow> delivered es = [(level, days)]"
  "sendOk level days es \<Longrightarrow> set (attempted es) = {level}"
  "sendOk level days es \<Longrightarrow> checks es = []"
  "sendOk level days es \<Longrightarrow> quiet es"
  "sendFailed level es \<Longrightarrow> delivered es = []"
  "sendFailed level es \<Longrightarrow> set (attempted es) = {level}"
  "sendFailed level es \<Longrightarrow> checks es = []"
  "sendFailed level es \<Longrightarrow> quiet es"
  "checkOk resp es \<Longrightarrow> delivered es = []"
  "checkOk resp es \<Longrightarrow> attempted es = []"
  "checkOk resp es \<Longrightarrow> checks es = [resp]"
  "checkOk resp es \<Longrightarrow> quiet es"
  "checkFailed es \<Longrightarrow> delivered es = []"
  "checkFailed es \<Longrightarrow> attempted es = []"
  "checkFailed es \<Longrightarrow> checks es = []"
  "checkFailed es \<Longrightarrow> quiet es"
  by (simp_all add: sendOk_def sendFailed_def checkOk_def checkFailed_def)

lemma takeWhile_quiet:
  assumes "quiet xs" "isSleep e"
  shows "takeWhile (\<lambda>e. \<not> isSleep e) (xs @ e # ys) = xs"
    and "dropWhile (\<lambda>e. \<not> isSleep e) (xs @ e # ys) = e # ys"
  using assms by (simp_all add: quiet_def list_all_iff)

lemma quiet_no_sleep: "quiet es \<Longrightarrow> \<not> list_ex isSleep es"
  by (simp add: quiet_def list_all_iff list_ex_iff)

lemma takeWhile_all_quiet:
  assumes "quiet xs"
  shows "takeWhile (\<lambda>e. \<not> isSleep e) xs = xs"
  using assms by (simp add: quiet_def list_all_iff)

lemma run_start_shape:
  assumes "reminderLevel p = initial"
  shows "runShape p (fst (run h p start)) (trace (snd (run h p start)))"
proof -
  have "run h p start = (fst (run h p start), snd (run h p start))" by simp
  from run_shape [OF assms this] show ?thesis by (simp add: start_def)
qed

lemma example_run:
  "fst (run exampleHost examplePayload start) = RunSuccess (str ''t1'') initial"
  "list_all (\<lambda>resp. \<not> ok resp \<or> isDue resp) (checks (trace (snd (run exampleHost examplePayload start))))"
  by code_simp+

lemma completed_run:
  "list_ex isSleep (trace (snd (run completedHost examplePayload start)))"
  "checks (trace (snd (run completedHost examplePayload start))) \<noteq> []"
  "ok (hd (checks (trace (snd (run completedHost examplePayload start)))))"
  "\<not> isDue (hd (checks (trace (snd (run completedHost examplePayload start)))))"
  by code_simp+

lemma attempt_Inr:
  assumes "f s = (Inr v, s')"
  shows "attempt n f s = (Inr v, s')"
  using assms by (cases n) simp_all


lemma request_event:
  assumes "attemptedBy e = [level]"
  shows "\<not> isSleep e" and "checkedBy e = []"
proof -
  from assms show "\<not> isSleep e" by (cases e) simp_all
  from assms show "checkedBy e = []" by (cases e) simp_all
qed

lemma send_answered:
  assumes "\<forall>n mid text tid level now. \<exists>resp. fetchAddReminder h n mid text tid level now = Inr resp \<and> ok resp"
  shows "\<exists>m e. step_do h (sendReminderMessage h tid name freq level days) s =
                 (Inr m, s\<lparr>tick := tick s + 3, trace := trace s @ [e]\<rparr>) \<and>
               deliveredBy e = [(level, days)] \<and> attemptedBy e = [level] \<and> checkedBy e = [] \<and>
               \<not> isSleep e"
proof -
  define mid where "mid = generateId h (tick s)"
  define body where "body = reminderText level name freq days"
  from assms obtain resp
    where resp: "fetchAddReminder h (tick s + 2) mid body tid level (clock h (tick s + 1)) = Inr resp" "ok resp"
    by blast
  define e where "e = AddReminder level days tid mid body (Inr resp)"
  from resp have "sendReminderMessage h tid name freq level days s =
      (Inr mid, s\<lparr>tick := tick s + 3, trace := trace s @ [e]\<rparr>)"
    by (simp add: sendReminderMessage_def Let_def mid_def body_def e_def)
  then have "attempt (stepRetries h) (sendReminderMessage h tid name freq level days) s =
      (Inr mid, s\<lparr>tick := tick s + 3, trace := trace s @ [e]\<rparr>)"
    by (rule attempt_Inr)
  then have "step_do h (sendReminderMessage h tid name freq level days) s =
      (Inr mid, s\<lparr>tick := tick s + 3, trace := trace s @ [e]\<rparr>)"
    by (simp add: step_do_def)
  moreover have "deliveredBy e = [(level, days)]" "attemptedBy e = [level]" "checkedBy e = []" "\<not> isSleep e"
    using resp(2) by (simp_all add: e_def)
  ultimately show ?thesis by blast
qed

lemma check_answered:
  assumes "fetchCheckTask h (tick s) tid = Inr resp"
  shows "step_do h (checkTaskStillDue h tid) s =
           (Inr (reportsDue resp), s\<lparr>tick := tick s + 1, trace := trace s @ [CheckTask tid (Inr resp)]\<rparr>)"
proof -
  from assms have "checkTaskStillDue h tid s =
      (Inr (reportsDue resp), s\<lparr>tick := tick s + 1, trace := trace s @ [CheckTask tid (Inr resp)]\<rparr>)"
    by (simp add: checkTaskStillDue_def Let_def reportsDue_def)
  then have "attempt (stepRetries h) (checkTaskStillDue h tid) s =
      (Inr (reportsDue resp), s\<lparr>tick := tick s + 1, trace := trace s @ [CheckTask tid (Inr resp)]\<rparr>)"
    by (rule attempt_Inr)
  then show ?thesis by (simp add: step_do_def)
qed

lemma run_continues:
  assumes lvl: "reminderLevel p = initial"
    and 1: "step_do h (sendReminderMessage h (taskId p) (taskName p) (taskFrequency p)
              initial (orZero (daysOverdue p))) s0 = (Inr m1, s1)"
  shows "\<exists>rest. trace (snd (run h p s0)) = trace s1 @ waitForFollowup # rest"
proof -
  obtain r2 s2 where 2: "step_do h (checkTaskStillDue h (taskId p))
      (step_sleep (str ''wait-for-followup'') (24 * 60 * 60) s1) = (r2, s2)"
    by (rule prod.exhaust)
  have "\<exists>es. trace s2 = trace s1 @ waitForFollowup # es \<and> (isl r2 \<longrightarrow> checkFailed es) \<and>
         (\<forall>b. r2 = Inr b \<longrightarrow> (\<exists>resp. checkOk resp es \<and> b = reportsDue resp))"
    unfolding waitForFollowup_def by (rule step_check [OF 2])
  then obtain C1 where tr2: "trace s2 = trace s1 @ waitForFollowup # C1" by blast
  show ?thesis
  proof (cases r2)
    case (Inl e)
    have "snd (run h p s0) = s2"
      unfolding run_def lvl 1 by (simp only: run_eval 2 Inl snd_conv)
    with tr2 show ?thesis by simp
  next
    case r2: (Inr stillDue)
    show ?thesis
    proof (cases stillDue)
      case False
      have "snd (run h p s0) = s2"
        unfolding run_def lvl 1 by (simp only: run_eval 2 r2 False snd_conv)
      with tr2 show ?thesis by simp
    next
      case True
      obtain r3 s3 where 3: "step_do h (sendReminderMessage h (taskId p) (taskName p) (taskFrequency p)
          followup (orZero (daysOverdue p) + 1)) s2 = (r3, s3)"
        by (rule prod.exhaust)
      from step_send [OF 3] obtain A2 where "trace s3 = trace s2 @ A2" by blast
      with tr2 have tr3: "trace s3 = trace s1 @ waitForFollowup # (C1 @ A2)" by simp
      show ?thesis
      proof (cases r3)
        case (Inl e)
        have "snd (run h p s0) = s3"
          unfolding run_def lvl 1 by (simp only: run_eval 2 r2 True 3 Inl snd_conv)
        with tr3 show ?thesis by simp
      next
        case r3: (Inr m3)
        obtain r4 s4 where 4: "step_do h (checkTaskStillDue h (taskId p))
            (step_sleep (str ''wait-for-escalation'') (48 * 60 * 60) s3) = (r4, s4)"
          by (rule prod.exhaust)
        have "\<exists>es. trace s4 = trace s3 @ waitForEscalation # es \<and> (isl r4 \<longrightarrow> checkFailed es) \<and>
           (\<forall>b. r4 = Inr b \<longrightarrow> (\<exists>resp. checkOk resp es \<and> b = reportsDue resp))"
          unfolding waitForEscalation_def by (rule step_check [OF 4])
        then obtain C2 where "trace s4 = trace s3 @ waitForEscalation # C2" by blast
        with tr3 have tr4: "trace s4 = trace s1 @ waitForFollowup # (C1 @ A2 @ waitForEscalation # C2)"
          by simp
        show ?thesis
        proof (cases r4)
          case (Inl e)
          have "snd (run h p s0) = s4"
            unfolding run_def lvl 1 by (simp only: run_eval 2 r2 True 3 r3 4 Inl snd_conv)
          with tr4 show ?thesis by simp
        next
          case r4: (Inr stillDue2)
          show ?thesis
          proof (cases stillDue2)
            case False
            have "snd (run h p s0) = s4"
              unfolding run_def lvl 1 by (simp only: run_eval 2 r2 True 3 r3 4 r4 False snd_conv)
            with tr4 show ?thesis by simp
          next
            case stillDue2: True
            obtain r5 s5 where 5: "step_do h (sendReminderMessage h (taskId p) (taskName p) (taskFrequency p)
                escalation (orZero (daysOverdue p) + 3)) s4 = (r5, s5)"
              by (rule prod.exhaust)
            from step_send [OF 5] obtain A3 where "trace s5 = trace s4 @ A3" by blast
            with tr4 have tr5: "trace s5 = trace s1 @ waitForFollowup # (C1 @ A2 @ waitForEscalation # C2 @ A3)"
              by simp
            have "snd (run h p s0) = s5"
              unfolding run_def lvl 1
              by (cases r5) (simp_all only: run_eval 2 r2 True 3 r3 4 r4 stillDue2 5 snd_conv)
            with tr5 show ?thesis by simp
          qed
        qed
      qed
    qed
  qed
qed

lemma run_first_wait:
  assumes lvl: "reminderLevel p = initial"
    and sends: "\<forall>n mid text tid level now. \<exists>resp. fetchAddReminder h n mid text tid level now = Inr resp \<and> ok resp"
  shows "\<exists>e rest. trace (snd (run h p start)) = e # waitForFollowup # rest \<and>
           deliveredBy e = [(initial, orZero (daysOverdue p))] \<and> attemptedBy e = [initial] \<and>
           \<not> isSleep e"
proof -
  from send_answered [OF sends, of "taskId p" "taskName p" "taskFrequency p" initial
      "orZero (daysOverdue p)" start]
  obtain m1 e1 where 1: "step_do h (sendReminderMessage h (taskId p) (taskName p) (taskFrequency p)
        initial (orZero (daysOverdue p))) start =
        (Inr m1, start\<lparr>tick := tick start + 3, trace := trace start @ [e1]\<rparr>)"
    and e1: "deliveredBy e1 = [(initial, orZero (daysOverdue p))]" "attemptedBy e1 = [initial]"
      "\<not> isSleep e1"
    by blast
  from run_continues [OF lvl 1] obtain rest
    where "trace (snd (run h p start)) = e1 # waitForFollowup # rest"
    by (auto simp: start_def)
  with e1 show ?thesis by blast
qed

lemma run_not_due:
  assumes lvl: "reminderLevel p = initial"
    and sends: "\<forall>n mid text tid level now. \<exists>resp. fetchAddReminder h n mid text tid level now = Inr resp \<and> ok resp"
    and check: "fetchCheckTask h 3 (taskId p) = Inr resp" "ok resp" "\<not> isDue resp"
  shows "fst (run h p start) = RunSuccess (taskId p) initial"
    and "\<exists>e. trace (snd (run h p start)) = [e, waitForFollowup, CheckTask (taskId p) (Inr resp)] \<and>
           deliveredBy e = [(initial, orZero (daysOverdue p))] \<and> attemptedBy e = [initial] \<and>
           \<not> isSleep e"
proof -
  from send_answered [OF sends, of "taskId p" "taskName p" "taskFrequency p" initial
      "orZero (daysOverdue p)" start]
  obtain m1 e1 where "step_do h (sendReminderMessage h (taskId p) (taskName p) (taskFrequency p)
        initial (orZero (daysOverdue p))) start =
        (Inr m1, start\<lparr>tick := tick start + 3, trace := trace start @ [e1]\<rparr>)"
    and e1: "deliveredBy e1 = [(initial, orZero (daysOverdue p))]" "attemptedBy e1 = [initial]"
      "\<not> isSleep e1"
    by blast
  define s1 where "s1 = start\<lparr>tick := tick start + 3, trace := trace start @ [e1]\<rparr>"
  note 1 = \<open>step_do h (sendReminderMessage h (taskId p) (taskName p) (taskFrequency p)
        initial (orZero (daysOverdue p))) start =
        (Inr m1, start\<lparr>tick := tick start + 3, trace := trace start @ [e1]\<rparr>)\<close> [folded s1_def]
  define w1 where "w1 = step_sleep (str ''wait-for-followup'') (24 * 60 * 60) s1"
  have w1: "tick w1 = 3" "trace w1 = [e1, waitForFollowup]"
    by (simp_all add: w1_def step_sleep_def s1_def start_def waitForFollowup_def)
  from check(2,3) have nd: "reportsDue resp = False" by (simp add: reportsDue_def)
  define s2 where "s2 = w1\<lparr>tick := tick w1 + 1, trace := trace w1 @ [CheckTask (taskId p) (Inr resp)]\<rparr>"
  from check(1) have "fetchCheckTask h (tick w1) (taskId p) = Inr resp" by (simp add: w1)
  from check_answered [OF this]
  have 2: "step_do h (checkTaskStillDue h (taskId p))
      (step_sleep (str ''wait-for-followup'') (24 * 60 * 60) s1) = (Inr False, s2)"
    unfolding nd s2_def w1_def .
  have r: "run h p start = (RunSuccess (taskId p) initial, s2)"
    unfolding run_def lvl 1 by (simp only: run_eval 2)
  from r show "fst (run h p start) = RunSuccess (taskId p) initial" by simp
  from r have "trace (snd (run h p start)) = [e1, waitForFollowup, CheckTask (taskId p) (Inr resp)]"
    by (simp add: s2_def w1)
  with e1 show "\<exists>e. trace (snd (run h p start)) = [e, waitForFollowup, CheckTask (taskId p) (Inr resp)] \<and>
           deliveredBy e = [(initial, orZero (daysOverdue p))] \<and> attemptedBy e = [initial] \<and>
           \<not> isSleep e"
    by blast
qed

lemma run_all_due:
  assumes lvl: "reminderLevel p = initial"
    and sends: "\<forall>n mid text tid level now. \<exists>resp. fetchAddReminder h n mid text tid level now = Inr resp \<and> ok resp"
    and check1: "fetchCheckTask h 3 (taskId p) = Inr resp1" "\<not> ok resp1 \<or> isDue resp1"
    and check2: "fetchCheckTask h 7 (taskId p) = Inr resp2" "\<not> ok resp2 \<or> isDue resp2"
  shows "fst (run h p start) = RunSuccess (taskId p) initial"
    and "\<exists>e1 e2 e3. trace (snd (run h p start)) =
             [e1, waitForFollowup, CheckTask (taskId p) (Inr resp1),
              e2, waitForEscalation, CheckTask (taskId p) (Inr resp2), e3] \<and>
           deliveredBy e1 = [(initial, orZero (daysOverdue p))] \<and> attemptedBy e1 = [initial] \<and>
           deliveredBy e2 = [(followup, orZero (daysOverdue p) + 1)] \<and> attemptedBy e2 = [followup] \<and>
           deliveredBy e3 = [(escalation, orZero (daysOverdue p) + 3)] \<and> attemptedBy e3 = [escalation]"
proof -
  from send_answered [OF sends, of "taskId p" "taskName p" "taskFrequency p" initial
      "orZero (daysOverdue p)" start]
  obtain m1 e1 where "step_do h (sendReminderMessage h (taskId p) (taskName p) (taskFrequency p)
        initial (orZero (daysOverdue p))) start =
        (Inr m1, start\<lparr>tick := tick start + 3, trace := trace start @ [e1]\<rparr>)"
    and e1: "deliveredBy e1 = [(initial, orZero (daysOverdue p))]" "attemptedBy e1 = [initial]"
    by blast
  define s1 where "s1 = start\<lparr>tick := tick start + 3, trace := trace start @ [e1]\<rparr>"
  note 1 = \<open>step_do h (sendReminderMessage h (taskId p) (taskName p) (taskFrequency p)
        initial (orZero (daysOverdue p))) start =
        (Inr m1, start\<lparr>tick := tick start + 3, trace := trace start @ [e1]\<rparr>)\<close> [folded s1_def]
  define w1 where "w1 = step_sleep (str ''wait-for-followup'') (24 * 60 * 60) s1"
  have w1: "tick w1 = 3" "trace w1 = [e1, waitForFollowup]"
    by (simp_all add: w1_def step_sleep_def s1_def start_def waitForFollowup_def)
  from check1(2) have d1: "reportsDue resp1 = True" by (simp add: reportsDue_def)
  define s2 where "s2 = w1\<lparr>tick := tick w1 + 1, trace := trace w1 @ [CheckTask (taskId p) (Inr resp1)]\<rparr>"
  from check1(1) have "fetchCheckTask h (tick w1) (taskId p) = Inr resp1" by (simp add: w1)
  from check_answered [OF this]
  have 2: "step_do h (checkTaskStillDue h (taskId p))
      (step_sleep (str ''wait-for-followup'') (24 * 60 * 60) s1) = (Inr True, s2)"
    unfolding d1 s2_def w1_def .
  have s2: "tick s2 = 4" "trace s2 = [e1, waitForFollowup, CheckTask (taskId p) (Inr resp1)]"
    by (simp_all add: s2_def w1)
  from send_answered [OF sends, of "taskId p" "taskName p" "taskFrequency p" followup
      "orZero (daysOverdue p) + 1" s2]
  obtain m3 e2 where "step_do h (sendReminderMessage h (taskId p) (taskName p) (taskFrequency p)
        followup (orZero (daysOverdue p) + 1)) s2 =
        (Inr m3, s2\<lparr>tick := tick s2 + 3, trace := trace s2 @ [e2]\<rparr>)"
    and e2: "deliveredBy e2 = [(followup, orZero (daysOverdue p) + 1)]" "attemptedBy e2 = [followup]"
    by blast
  define s3 where "s3 = s2\<lparr>tick := tick s2 + 3, trace := trace s2 @ [e2]\<rparr>"
  note 3 = \<open>step_do h (sendReminderMessage h (taskId p) (taskName p) (taskFrequency p)
        followup (orZero (daysOverdue p) + 1)) s2 =
        (Inr m3, s2\<lparr>tick := tick s2 + 3, trace := trace s2 @ [e2]\<rparr>)\<close> [folded s3_def]
  define w2 where "w2 = step_sleep (str ''wait-for-escalation'') (48 * 60 * 60) s3"
  have w2: "tick w2 = 7"
    "trace w2 = [e1, waitForFollowup, CheckTask (taskId p) (Inr resp1), e2, waitForEscalation]"
    by (simp_all add: w2_def step_sleep_def s3_def s2 waitForEscalation_def)
  from check2(2) have d2: "reportsDue resp2 = True" by (simp add: reportsDue_def)
  define s4 where "s4 = w2\<lparr>tick := tick w2 + 1, trace := trace w2 @ [CheckTask (taskId p) (Inr resp2)]\<rparr>"
  from check2(1) have "fetchCheckTask h (tick w2) (taskId p) = Inr resp2" by (simp add: w2)
  from check_answered [OF this]
  have 4: "step_do h (checkTaskStillDue h (taskId p))
      (step_sleep (str ''wait-for-escalation'') (48 * 60 * 60) s3) = (Inr True, s4)"
    unfolding d2 s4_def w2_def .
  have s4: "trace s4 = [e1, waitForFollowup, CheckTask (taskId p) (Inr resp1),
                        e2, waitForEscalation, CheckTask (taskId p) (Inr resp2)]"
    by (simp add: s4_def w2)
  from send_answered [OF sends, of "taskId p" "taskName p" "taskFrequency p" escalation
      "orZero (daysOverdue p) + 3" s4]
  obtain m5 e3 where "step_do h (sendReminderMessage h (taskId p) (taskName p) (taskFrequency p)
        escalation (orZero (daysOverdue p) + 3)) s4 =
        (Inr m5, s4\<lparr>tick := tick s4 + 3, trace := trace s4 @ [e3]\<rparr>)"
    and e3: "deliveredBy e3 = [(escalation, orZero (daysOverdue p) + 3)]" "attemptedBy e3 = [escalation]"
    by blast
  define s5 where "s5 = s4\<lparr>tick := tick s4 + 3, trace := trace s4 @ [e3]\<rparr>"
  note 5 = \<open>step_do h (sendReminderMessage h (taskId p) (taskName p) (taskFrequency p)
        escalation (orZero (daysOverdue p) + 3)) s4 =
        (Inr m5, s4\<lparr>tick := tick s4 + 3, trace := trace s4 @ [e3]\<rparr>)\<close> [folded s5_def]
  have r: "run h p start = (RunSuccess (taskId p) initial, s5)"
    unfolding run_def lvl 1 by (simp only: run_eval 2 3 4 5)
  from r show "fst (run h p start) = RunSuccess (taskId p) initial" by simp
  from r have "trace (snd (run h p start)) =
      [e1, waitForFollowup, CheckTask (taskId p) (Inr resp1),
       e2, waitForEscalation, CheckTask (taskId p) (Inr resp2), e3]"
    by (simp add: s5_def s4)
  with e1 e2 e3 show "\<exists>e1 e2 e3. trace (snd (run h p start)) =
             [e1, waitForFollowup, CheckTask (taskId p) (Inr resp1),
              e2, waitForEscalation, CheckTask (taskId p) (Inr resp2), e3] \<and>
           deliveredBy e1 = [(initial, orZero (daysOverdue p))] \<and> attemptedBy e1 = [initial] \<and>
           deliveredBy e2 = [(followup, orZero (daysOverdue p) + 1)] \<and> attemptedBy e2 = [followup] \<and>
           deliveredBy e3 = [(escalation, orZero (daysOverdue p) + 3)] \<and> attemptedBy e3 = [escalation]"
    by blast
qed

lemma example_answers:
  "\<forall>n mid text tid level now. \<exists>resp. fetchAddReminder exampleHost n mid text tid level now = Inr resp \<and> ok resp"
  "\<forall>n mid text tid level now. \<exists>resp. fetchAddReminder completedHost n mid text tid level now = Inr resp \<and> ok resp"
  "fetchCheckTask exampleHost 3 (taskId examplePayload) = Inr (Response True (str ''OK'') True)"
  "fetchCheckTask exampleHost 7 (taskId examplePayload) = Inr (Response True (str ''OK'') True)"
  "fetchCheckTask completedHost 3 (taskId examplePayload) = Inr (Response True (str ''OK'') False)"
  by (simp_all add: exampleHost_def completedHost_def)

text \<open>
  C1. A run started at level \<open>initial\<close> on a host that answers every delivery with
  success and both due-checks (the interactions 3 and 7 of such a run) with "still due"
  (a failed check counts as still due) succeeds and delivers exactly three reminders, in
  the order initial, follow-up, escalation, with the overdue counts \<open>d\<close>, \<open>d + 1\<close> and
  \<open>d + 3\<close>, where \<open>d\<close> is the count in the payload (0 when it is absent); it makes three
  requests to deliver, one of each level, two due-checks and two waits. More generally,
  including the runs in which a step is run again, a run that succeeds with every due-check
  answered "still due" has delivered exactly these three. Whatever the host answers, the
  reminders delivered by a run are an initial part of these three: there is never a
  fourth.
\<close>

theorem three_reminders:
  assumes "reminderLevel p = initial"
  shows "((\<forall>n mid text tid level now. \<exists>resp. fetchAddReminder h n mid text tid level now = Inr resp \<and> ok resp) \<and>
          (\<exists>resp1 resp2. fetchCheckTask h 3 (taskId p) = Inr resp1 \<and> (\<not> ok resp1 \<or> isDue resp1) \<and>
                         fetchCheckTask h 7 (taskId p) = Inr resp2 \<and> (\<not> ok resp2 \<or> isDue resp2)) \<longrightarrow>
          fst (run h p start) = RunSuccess (taskId p) initial \<and>
          delivered (trace (snd (run h p start))) =
            [(initial, case daysOverdue p of None \<Rightarrow> 0 | Some d \<Rightarrow> d),
             (followup, (case daysOverdue p of None \<Rightarrow> 0 | Some d \<Rightarrow> d) + 1),
             (escalation, (case daysOverdue p of None \<Rightarrow> 0 | Some d \<Rightarrow> d) + 3)] \<and>
          attempted (trace (snd (run h p start))) = [initial, followup, escalation] \<and>
          length (checks (trace (snd (run h p start)))) = 2 \<and>
          filter isSleep (trace (snd (run h p start))) =
            [Sleep (str ''wait-for-followup'') (24 * 60 * 60),
             Sleep (str ''wait-for-escalation'') (48 * 60 * 60)]) \<and>
         (fst (run h p start) = RunSuccess (taskId p) initial \<and>
          list_all (\<lambda>resp. \<not> ok resp \<or> isDue resp) (checks (trace (snd (run h p start)))) \<longrightarrow>
          delivered (trace (snd (run h p start))) =
            [(initial, case daysOverdue p of None \<Rightarrow> 0 | Some d \<Rightarrow> d),
             (followup, (case daysOverdue p of None \<Rightarrow> 0 | Some d \<Rightarrow> d) + 1),
             (escalation, (case daysOverdue p of None \<Rightarrow> 0 | Some d \<Rightarrow> d) + 3)]) \<and>
         delivered (trace (snd (run h p start))) =
           take (length (delivered (trace (snd (run h p start)))))
            [(initial, case daysOverdue p of None \<Rightarrow> 0 | Some d \<Rightarrow> d),
             (followup, (case daysOverdue p of None \<Rightarrow> 0 | Some d \<Rightarrow> d) + 1),
             (escalation, (case daysOverdue p of None \<Rightarrow> 0 | Some d \<Rightarrow> d) + 3)]"
proof (intro conjI impI)
  assume a: "(\<forall>n mid text tid level now. \<exists>resp. fetchAddReminder h n mid text tid level now = Inr resp \<and> ok resp) \<and>
          (\<exists>resp1 resp2. fetchCheckTask h 3 (taskId p) = Inr resp1 \<and> (\<not> ok resp1 \<or> isDue resp1) \<and>
                         fetchCheckTask h 7 (taskId p) = Inr resp2 \<and> (\<not> ok resp2 \<or> isDue resp2))"
  then have sends: "\<forall>n mid text tid level now. \<exists>resp. fetchAddReminder h n mid text tid level now = Inr resp \<and> ok resp"
    by (rule conjunct1)
  from a obtain resp1 resp2
    where c1: "fetchCheckTask h 3 (taskId p) = Inr resp1" "\<not> ok resp1 \<or> isDue resp1"
      and c2: "fetchCheckTask h 7 (taskId p) = Inr resp2" "\<not> ok resp2 \<or> isDue resp2"
    by (elim conjE exE)
  show "fst (run h p start) = RunSuccess (taskId p) initial"
    by (rule run_all_due(1) [OF assms sends c1 c2])
  from run_all_due(2) [OF assms sends c1 c2] obtain e1 e2 e3
    where tr: "trace (snd (run h p start)) =
             [e1, waitForFollowup, CheckTask (taskId p) (Inr resp1),
              e2, waitForEscalation, CheckTask (taskId p) (Inr resp2), e3]"
      and e: "deliveredBy e1 = [(initial, orZero (daysOverdue p))]" "attemptedBy e1 = [initial]"
        "deliveredBy e2 = [(followup, orZero (daysOverdue p) + 1)]" "attemptedBy e2 = [followup]"
        "deliveredBy e3 = [(escalation, orZero (daysOverdue p) + 3)]" "attemptedBy e3 = [escalation]"
    by (elim conjE exE)
  have ns: "\<not> isSleep e1" "\<not> isSleep e2" "\<not> isSleep e3"
    using e(2,4,6) by (simp_all add: request_event)
  have nc: "checkedBy e1 = []" "checkedBy e2 = []" "checkedBy e3 = []"
    using e(2,4,6) by (simp_all add: request_event)
  show "delivered (trace (snd (run h p start))) =
            [(initial, case daysOverdue p of None \<Rightarrow> 0 | Some d \<Rightarrow> d),
             (followup, (case daysOverdue p of None \<Rightarrow> 0 | Some d \<Rightarrow> d) + 1),
             (escalation, (case daysOverdue p of None \<Rightarrow> 0 | Some d \<Rightarrow> d) + 3)]"
    unfolding tr by (simp add: e orZero_def)
  show "attempted (trace (snd (run h p start))) = [initial, followup, escalation]"
    unfolding tr by (simp add: e)
  show "length (checks (trace (snd (run h p start)))) = 2"
    unfolding tr by (simp add: nc)
  show "filter isSleep (trace (snd (run h p start))) =
            [Sleep (str ''wait-for-followup'') (24 * 60 * 60),
             Sleep (str ''wait-for-escalation'') (48 * 60 * 60)]"
    unfolding tr by (simp add: ns) (simp add: waitForFollowup_def waitForEscalation_def)
next
  assume "fst (run h p start) = RunSuccess (taskId p) initial \<and>
          list_all (\<lambda>resp. \<not> ok resp \<or> isDue resp) (checks (trace (snd (run h p start))))"
  with run_start_shape [OF assms, of h]
  show "delivered (trace (snd (run h p start))) =
            [(initial, case daysOverdue p of None \<Rightarrow> 0 | Some d \<Rightarrow> d),
             (followup, (case daysOverdue p of None \<Rightarrow> 0 | Some d \<Rightarrow> d) + 1),
             (escalation, (case daysOverdue p of None \<Rightarrow> 0 | Some d \<Rightarrow> d) + 3)]"
    by (cases rule: runShape.cases) (simp_all add: segment_simps orZero_def reportsDue_def)
next
  from run_start_shape [OF assms, of h]
  show "delivered (trace (snd (run h p start))) =
           take (length (delivered (trace (snd (run h p start)))))
            [(initial, case daysOverdue p of None \<Rightarrow> 0 | Some d \<Rightarrow> d),
             (followup, (case daysOverdue p of None \<Rightarrow> 0 | Some d \<Rightarrow> d) + 1),
             (escalation, (case daysOverdue p of None \<Rightarrow> 0 | Some d \<Rightarrow> d) + 3)]"
    by (cases rule: runShape.cases) (simp_all add: segment_simps orZero_def reportsDue_def)
qed

theorem three_reminders_witness:
  "reminderLevel examplePayload = initial \<and>
   (\<forall>n mid text tid level now. \<exists>resp.
      fetchAddReminder exampleHost n mid text tid level now = Inr resp \<and> ok resp) \<and>
   fetchCheckTask exampleHost 3 (taskId examplePayload) = Inr (Response True (str ''OK'') True) \<and>
   fetchCheckTask exampleHost 7 (taskId examplePayload) = Inr (Response True (str ''OK'') True) \<and>
   fst (run exampleHost examplePayload start) = RunSuccess (taskId examplePayload) initial \<and>
   delivered (trace (snd (run exampleHost examplePayload start))) =
     [(initial, 2), (followup, 3), (escalation, 5)] \<and>
   attempted (trace (snd (run exampleHost examplePayload start))) = [initial, followup, escalation]"
proof -
  have 1: "reminderLevel examplePayload = initial" "daysOverdue examplePayload = Some 2"
    by (simp_all add: examplePayload_def)
  have 2: "\<exists>resp1 resp2.
      fetchCheckTask exampleHost 3 (taskId examplePayload) = Inr resp1 \<and> (\<not> ok resp1 \<or> isDue resp1) \<and>
      fetchCheckTask exampleHost 7 (taskId examplePayload) = Inr resp2 \<and> (\<not> ok resp2 \<or> isDue resp2)"
    by (simp add: example_answers)
  from three_reminders [OF 1(1), of exampleHost] example_answers(1) 2
  have "fst (run exampleHost examplePayload start) = RunSuccess (taskId examplePayload) initial \<and>
        delivered (trace (snd (run exampleHost examplePayload start))) =
          [(initial, 2), (followup, 3), (escalation, 5)] \<and>
        attempted (trace (snd (run exampleHost examplePayload start))) = [initial, followup, escalation]"
    by (simp add: 1)
  with 1(1) example_answers(1,3,4) show ?thesis by simp
qed

text \<open>
  C2. In a run started at level \<open>initial\<close> on a host that answers every delivery with
  success, the run comes to a wait, the first one is the one named "wait-for-followup",
  and before it exactly one request to deliver has been made and exactly one reminder
  delivered, the initial one. When moreover the first due-check (the interaction 3 of
  such a run) is answered "not due", the run makes no other request to deliver and
  delivers nothing else, waits once, and ends with success. More generally, including the
  runs in which a step is run again: when a run comes to a wait, exactly one reminder, the
  initial one, has been delivered before the first one; and when the first due-check that
  is answered is answered "not due", the run has requested no reminder of another level
  than initial, has delivered the initial one alone, and ends with success.
\<close>

theorem first_wait:
  assumes "reminderLevel p = initial"
  shows "((\<forall>n mid text tid level now. \<exists>resp. fetchAddReminder h n mid text tid level now = Inr resp \<and> ok resp) \<longrightarrow>
            list_ex isSleep (trace (snd (run h p start))) \<and>
            attempted (takeWhile (\<lambda>e. \<not> isSleep e) (trace (snd (run h p start)))) = [initial] \<and>
            delivered (takeWhile (\<lambda>e. \<not> isSleep e) (trace (snd (run h p start)))) =
              [(initial, case daysOverdue p of None \<Rightarrow> 0 | Some d \<Rightarrow> d)] \<and>
            hd (dropWhile (\<lambda>e. \<not> isSleep e) (trace (snd (run h p start)))) =
              Sleep (str ''wait-for-followup'') (24 * 60 * 60)) \<and>
         ((\<forall>n mid text tid level now. \<exists>resp. fetchAddReminder h n mid text tid level now = Inr resp \<and> ok resp) \<and>
          (\<exists>resp. fetchCheckTask h 3 (taskId p) = Inr resp \<and> ok resp \<and> \<not> isDue resp) \<longrightarrow>
            attempted (trace (snd (run h p start))) = [initial] \<and>
            delivered (trace (snd (run h p start))) =
              [(initial, case daysOverdue p of None \<Rightarrow> 0 | Some d \<Rightarrow> d)] \<and>
            filter isSleep (trace (snd (run h p start))) =
              [Sleep (str ''wait-for-followup'') (24 * 60 * 60)] \<and>
            fst (run h p start) = RunSuccess (taskId p) initial) \<and>
         (list_ex isSleep (trace (snd (run h p start))) \<longrightarrow>
            delivered (takeWhile (\<lambda>e. \<not> isSleep e) (trace (snd (run h p start)))) =
              [(initial, case daysOverdue p of None \<Rightarrow> 0 | Some d \<Rightarrow> d)] \<and>
            hd (dropWhile (\<lambda>e. \<not> isSleep e) (trace (snd (run h p start)))) =
              Sleep (str ''wait-for-followup'') (24 * 60 * 60)) \<and>
         (checks (trace (snd (run h p start))) \<noteq> [] \<and>
          ok (hd (checks (trace (snd (run h p start))))) \<and>
          \<not> isDue (hd (checks (trace (snd (run h p start))))) \<longrightarrow>
            set (attempted (trace (snd (run h p start)))) = {initial} \<and>
            delivered (trace (snd (run h p start))) =
              [(initial, case daysOverdue p of None \<Rightarrow> 0 | Some d \<Rightarrow> d)] \<and>
            fst (run h p start) = RunSuccess (taskId p) initial)"
proof -
  have answered: "list_ex isSleep (trace (snd (run h p start))) \<and>
            attempted (takeWhile (\<lambda>e. \<not> isSleep e) (trace (snd (run h p start)))) = [initial] \<and>
            delivered (takeWhile (\<lambda>e. \<not> isSleep e) (trace (snd (run h p start)))) =
              [(initial, case daysOverdue p of None \<Rightarrow> 0 | Some d \<Rightarrow> d)] \<and>
            hd (dropWhile (\<lambda>e. \<not> isSleep e) (trace (snd (run h p start)))) =
              Sleep (str ''wait-for-followup'') (24 * 60 * 60)"
    if sends: "\<forall>n mid text tid level now. \<exists>resp. fetchAddReminder h n mid text tid level now = Inr resp \<and> ok resp"
  proof -
    from run_first_wait [OF assms sends] obtain e rest
      where tr: "trace (snd (run h p start)) = e # waitForFollowup # rest"
        and e: "deliveredBy e = [(initial, orZero (daysOverdue p))]" "attemptedBy e = [initial]"
          "\<not> isSleep e"
      by (elim conjE exE)
    show ?thesis
      unfolding tr by (simp add: e orZero_def) (simp add: waitForFollowup_def)
  qed
  have notDue: "attempted (trace (snd (run h p start))) = [initial] \<and>
            delivered (trace (snd (run h p start))) =
              [(initial, case daysOverdue p of None \<Rightarrow> 0 | Some d \<Rightarrow> d)] \<and>
            filter isSleep (trace (snd (run h p start))) =
              [Sleep (str ''wait-for-followup'') (24 * 60 * 60)] \<and>
            fst (run h p start) = RunSuccess (taskId p) initial"
    if sends: "\<forall>n mid text tid level now. \<exists>resp. fetchAddReminder h n mid text tid level now = Inr resp \<and> ok resp"
      and check: "\<exists>resp. fetchCheckTask h 3 (taskId p) = Inr resp \<and> ok resp \<and> \<not> isDue resp"
  proof -
    from check obtain resp where c: "fetchCheckTask h 3 (taskId p) = Inr resp" "ok resp" "\<not> isDue resp"
      by (elim conjE exE)
    from run_not_due(2) [OF assms sends c] obtain e
      where tr: "trace (snd (run h p start)) = [e, waitForFollowup, CheckTask (taskId p) (Inr resp)]"
        and e: "deliveredBy e = [(initial, orZero (daysOverdue p))]" "attemptedBy e = [initial]"
          "\<not> isSleep e"
      by (elim conjE exE)
    show ?thesis
      unfolding tr using run_not_due(1) [OF assms sends c]
      by (simp add: e orZero_def) (simp add: waitForFollowup_def)
  qed
  have general: "(list_ex isSleep (trace (snd (run h p start))) \<longrightarrow>
            delivered (takeWhile (\<lambda>e. \<not> isSleep e) (trace (snd (run h p start)))) =
              [(initial, case daysOverdue p of None \<Rightarrow> 0 | Some d \<Rightarrow> d)] \<and>
            hd (dropWhile (\<lambda>e. \<not> isSleep e) (trace (snd (run h p start)))) =
              Sleep (str ''wait-for-followup'') (24 * 60 * 60)) \<and>
         (checks (trace (snd (run h p start))) \<noteq> [] \<and>
          ok (hd (checks (trace (snd (run h p start))))) \<and>
          \<not> isDue (hd (checks (trace (snd (run h p start))))) \<longrightarrow>
            set (attempted (trace (snd (run h p start)))) = {initial} \<and>
            delivered (trace (snd (run h p start))) =
              [(initial, case daysOverdue p of None \<Rightarrow> 0 | Some d \<Rightarrow> d)] \<and>
            fst (run h p start) = RunSuccess (taskId p) initial)"
    using run_start_shape [OF assms, of h]
  proof (cases rule: runShape.cases)
    case initialFailed
    then have "quiet (trace (snd (run h p start)))" "checks (trace (snd (run h p start))) = []"
      by (simp_all add: segment_simps)
    then show ?thesis by (simp add: quiet_no_sleep)
  next
    case firstCheckFailed
    then show ?thesis
      by (simp add: segment_simps takeWhile_quiet orZero_def) (simp add: waitForFollowup_def)
  next
    case doneAfterFirstCheck
    then show ?thesis
      by (simp add: segment_simps takeWhile_quiet orZero_def reportsDue_def) (simp add: waitForFollowup_def)
  next
    case followupFailed
    then show ?thesis
      by (simp add: segment_simps takeWhile_quiet orZero_def reportsDue_def) (auto simp add: waitForFollowup_def)
  next
    case secondCheckFailed
    then show ?thesis
      by (simp add: segment_simps takeWhile_quiet orZero_def reportsDue_def) (auto simp add: waitForFollowup_def)
  next
    case doneAfterSecondCheck
    then show ?thesis
      by (simp add: segment_simps takeWhile_quiet orZero_def reportsDue_def) (auto simp add: waitForFollowup_def)
  next
    case escalationFailed
    then show ?thesis
      by (simp add: segment_simps takeWhile_quiet orZero_def reportsDue_def) (auto simp add: waitForFollowup_def)
  next
    case escalated
    then show ?thesis
      by (simp add: segment_simps takeWhile_quiet orZero_def reportsDue_def) (auto simp add: waitForFollowup_def)
  qed
  from answered notDue general show ?thesis by (intro conjI impI) (elim conjE, assumption | simp)+
qed

theorem first_wait_witness:
  "reminderLevel examplePayload = initial \<and>
   (\<forall>n mid text tid level now. \<exists>resp.
      fetchAddReminder completedHost n mid text tid level now = Inr resp \<and> ok resp) \<and>
   fetchCheckTask completedHost 3 (taskId examplePayload) = Inr (Response True (str ''OK'') False) \<and>
   list_ex isSleep (trace (snd (run completedHost examplePayload start))) \<and>
   ok (hd (checks (trace (snd (run completedHost examplePayload start))))) \<and>
   \<not> isDue (hd (checks (trace (snd (run completedHost examplePayload start))))) \<and>
   delivered (takeWhile (\<lambda>e. \<not> isSleep e) (trace (snd (run completedHost examplePayload start)))) =
     [(initial, 2)] \<and>
   attempted (trace (snd (run completedHost examplePayload start))) = [initial] \<and>
   delivered (trace (snd (run completedHost examplePayload start))) = [(initial, 2)] \<and>
   fst (run completedHost examplePayload start) = RunSuccess (taskId examplePayload) initial"
proof -
  have 1: "reminderLevel examplePayload = initial" "daysOverdue examplePayload = Some 2"
    by (simp_all add: examplePayload_def)
  have 2: "\<exists>resp. fetchCheckTask completedHost 3 (taskId examplePayload) = Inr resp \<and> ok resp \<and> \<not> isDue resp"
    by (simp add: example_answers)
  from first_wait [OF 1(1), of completedHost] example_answers(2) 2 completed_run 1
  have "list_ex isSleep (trace (snd (run completedHost examplePayload start))) \<and>
    delivered (takeWhile (\<lambda>e. \<not> isSleep e) (trace (snd (run completedHost examplePayload start)))) =
      [(initial, 2)] \<and>
    attempted (trace (snd (run completedHost examplePayload start))) = [initial] \<and>
    delivered (trace (snd (run completedHost examplePayload start))) = [(initial, 2)] \<and>
    fst (run completedHost examplePayload start) = RunSuccess (taskId examplePayload) initial"
    by simp
  with 1(1) example_answers(2,5) completed_run show ?thesis by simp
qed




text \<open>
  C9. Whatever the host, a call of \<^verbatim>\<open>sendReminderMessage\<close> sends one request, whose text
  is the emoji of the level, a space, and the text of the specification for that level,
  in which the overdue count is printed in decimal and "day(s)" is "day" for a count of 1
  and "days" for any other count.
\<close>

theorem reminder_text:
  "\<exists>messageId r.
     trace (snd (sendReminderMessage h tid name freq level days s)) =
       trace s @ [AddReminder level days tid messageId
                    (emoji level @ str '' '' @
                     specText level name freq (toString days)
                       (if days = 1 then str ''day'' else str ''days'')) r]"
  by (cases level)
     (auto simp: sendReminderMessage_def reminderText_def specText_def Let_def str_def split: sum.splits)

text \<open>
  The initial reminder for the task "x" with frequency "7 days" is sent with a bell and a
  space before "Reminder:", which the text of the specification does not have.
\<close>

theorem reminder_text_counterexample:
  "trace (snd (sendReminderMessage exampleHost (str ''t1'') (str ''x'') (str ''7 days'') initial 0 start)) =
     [AddReminder initial 0 (str ''t1'') (str ''msg'')
        ([0xD83D, 0xDD14] @ str '' Reminder: '' @ [0x22] @ str ''x'' @ [0x22] @ str '' is due. Frequency: 7 days.'')
        (Inr (Response True (str ''OK'') False))] \<and>
   [0xD83D, 0xDD14] @ str '' Reminder: '' @ [0x22] @ str ''x'' @ [0x22] @ str '' is due. Frequency: 7 days.''
     \<noteq> specText initial (str ''x'') (str ''7 days'') (toString 0) (str ''day(s)'')"
  by (simp add: sendReminderMessage_def reminderText_def specText_def Let_def str_def
        exampleHost_def start_def emoji_def)


section \<open>Properties of the batch workflow\<close>

lemma dropWhile_all_quiet:
  assumes "quiet xs"
  shows "dropWhile (\<lambda>e. \<not> isSleep e) xs = []"
  using assms by (simp add: quiet_def list_all_iff)

lemma launches_simps [simp]:
  "launches [] = []" "launches (e # es) = createdBy e @ launches es"
  "launches (xs @ ys) = launches xs @ launches ys"
  by (simp_all add: launches_def)

lemma launch_once:
  assumes "launch h prefix t s = (r, s')"
  shows "\<exists>e. trace s' = trace s @ [e] \<and> createdBy e = [(due_id t, success r)] \<and> \<not> isSleep e"
  using assms by (auto simp: launch_def Let_def split: sum.splits)

lemma launchAll_trace:
  assumes "launchAll h prefix ts s = (rs, s')"
  shows "\<exists>es. trace s' = trace s @ es \<and> launches es = zip (map due_id ts) (map success rs) \<and>
           quiet es \<and> length es = length ts \<and> length rs = length ts"
  using assms
proof (induction ts arbitrary: s rs s')
  case Nil
  then show ?case by simp
next
  case (Cons t ts)
  obtain r s1 where 1: "launch h prefix t s = (r, s1)" by (rule prod.exhaust)
  obtain rs1 s2 where 2: "launchAll h prefix ts s1 = (rs1, s2)" by (rule prod.exhaust)
  from Cons.prems 1 2 have eq: "rs = r # rs1" "s' = s2" by simp_all
  from launch_once [OF 1] obtain e where e: "trace s1 = trace s @ [e]"
    "createdBy e = [(due_id t, success r)]" "\<not> isSleep e" by blast
  from Cons.IH [OF 2] obtain es where es: "trace s2 = trace s1 @ es"
    "launches es = zip (map due_id ts) (map success rs1)" "quiet es" "length es = length ts"
    "length rs1 = length ts" by blast
  from e es eq have "trace s' = trace s @ (e # es) \<and>
      launches (e # es) = zip (map due_id (t # ts)) (map success rs) \<and>
      quiet (e # es) \<and> length (e # es) = length (t # ts) \<and> length rs = length (t # ts)"
    by simp
  then show ?case by blast
qed

lemma zip_nth: "zip xs ys = map (\<lambda>i. (xs ! i, ys ! i)) [0 ..< min (length xs) (length ys)]"
  by (rule nth_equalityI) simp_all

lemma failedTasks_zip:
  assumes "length rs = length ts"
  shows "failedTasks ts rs = map fst (filter (\<lambda>(t, r). \<not> success r) (zip ts rs))"
proof -
  have "filter (\<lambda>x. \<not> success (rs ! ([0 ..< length ts] ! x))) [0 ..< length ts] =
        filter (\<lambda>i. \<not> success (rs ! i)) [0 ..< length ts]"
    by (rule filter_cong) auto
  then have "failedTasks ts rs = map (\<lambda>i. ts ! i) (filter (\<lambda>i. \<not> success (rs ! i)) [0 ..< length ts])"
    unfolding failedTasks_def zip_nth [of ts "[0 ..< length ts]"]
    by (simp add: filter_map comp_def)
  also have "\<dots> = map fst (filter (\<lambda>(t, r). \<not> success r) (zip ts rs))"
    unfolding zip_nth [of ts rs] using assms by (simp add: filter_map comp_def)
  finally show ?thesis .
qed


lemma failed_count:
  "(0 < length (filter (\<lambda>r. \<not> success r) rs)) = (\<not> list_all success rs)"
  by (induction rs) auto

lemma runBatch_shape:
  assumes ne: "dueTasks \<noteq> []" and run: "runBatch h dueTasks s0 = (res, s')"
  shows "\<exists>first rs. quiet first \<and> length first = length dueTasks \<and> length rs = length dueTasks \<and>
           launches first = zip (map due_id dueTasks) (map success rs) \<and>
           (\<exists>stamp. res = Inr (BatchReport (length dueTasks) (length (filter success rs))
                                 (length (filter (\<lambda>r. \<not> success r) rs)) stamp)) \<and>
           (if list_all success rs then trace s' = trace s0 @ first
            else \<exists>retry rs'. trace s' = trace s0 @ first @ retryDelay # retry \<and> quiet retry \<and>
                   length retry = length (failedTasks dueTasks rs) \<and>
                   launches retry = zip (map due_id (failedTasks dueTasks rs)) (map success rs') \<and>
                   length rs' = length (failedTasks dueTasks rs))"
proof -
  obtain rs s1 where 1: "launchAll h (str ''reminder-'') dueTasks s0 = (rs, s1)"
    by (rule prod.exhaust)
  have step1: "step_do h (\<lambda>s. case launchAll h (str ''reminder-'') dueTasks s of
                               (rs, s') \<Rightarrow> (Inr rs, s')) s0 = (Inr rs, s1)"
    unfolding step_do_def by (rule attempt_Inr) (simp add: 1)
  from launchAll_trace [OF 1] obtain first where first: "trace s1 = trace s0 @ first"
    "launches first = zip (map due_id dueTasks) (map success rs)" "quiet first"
    "length first = length dueTasks" "length rs = length dueTasks"
    by blast
  show ?thesis
  proof (cases "list_all success rs")
    case True
    then have none: "(0 < length (filter (\<lambda>r. \<not> success r) rs)) = False"
      by (simp only: failed_count simp_thms)
    from run have "res = Inr (BatchReport (length dueTasks) (length (filter success rs))
        (length (filter (\<lambda>r. \<not> success r) rs)) (clock h (tick s1)))" "s' = s1\<lparr>tick := tick s1 + 1\<rparr>"
      unfolding runBatch_def
      by (simp_all only: ne if_False step1 prod.case sum.case Let_def none prod.inject simp_thms)
    with first True show ?thesis
      by (intro exI [of _ first] exI [of _ rs]) simp
  next
    case False
    then have some: "(0 < length (filter (\<lambda>r. \<not> success r) rs)) = True"
      by (simp only: failed_count simp_thms)
    obtain rs' s2 where 2: "launchAll h (str ''reminder-retry-'') (failedTasks dueTasks rs)
        (step_sleep (str ''retry-delay'') 300 s1) = (rs', s2)"
      by (rule prod.exhaust)
    have step2: "step_do h (\<lambda>s. case launchAll h (str ''reminder-retry-'') (failedTasks dueTasks rs) s of
                               (rs, s') \<Rightarrow> (Inr rs, s')) (step_sleep (str ''retry-delay'') 300 s1) = (Inr rs', s2)"
      unfolding step_do_def by (rule attempt_Inr) (simp add: 2)
    from launchAll_trace [OF 2] obtain retry where retry:
      "trace s2 = trace (step_sleep (str ''retry-delay'') 300 s1) @ retry"
      "launches retry = zip (map due_id (failedTasks dueTasks rs)) (map success rs')" "quiet retry"
      "length retry = length (failedTasks dueTasks rs)" "length rs' = length (failedTasks dueTasks rs)"
      by blast
    have tr: "trace s2 = trace s0 @ first @ retryDelay # retry"
      using retry(1) first(1) by (simp add: step_sleep_def retryDelay_def)
    from run have "res = Inr (BatchReport (length dueTasks) (length (filter success rs))
        (length (filter (\<lambda>r. \<not> success r) rs)) (clock h (tick s2)))" "s' = s2\<lparr>tick := tick s2 + 1\<rparr>"
      unfolding runBatch_def
      by (simp_all only: ne if_False if_True step1 step2 prod.case sum.case Let_def some prod.inject simp_thms)
    with first False tr retry(2,3,4,5) show ?thesis
      by (intro exI [of _ first] exI [of _ rs]) auto
  qed
qed


lemma zip_launches:
  assumes "length rs = length ts"
  shows "map fst (zip (map due_id ts) (map success rs)) = map due_id ts"
    and "list_all snd (zip (map due_id ts) (map success rs)) = list_all success rs"
    and "length (filter snd (zip (map due_id ts) (map success rs))) = length (filter success rs)"
    and "length (filter (\<lambda>(tid, ok). \<not> ok) (zip (map due_id ts) (map success rs))) =
           length (filter (\<lambda>r. \<not> success r) rs)"
    and "map fst (filter (\<lambda>(tid, ok). \<not> ok) (zip (map due_id ts) (map success rs))) =
           map due_id (failedTasks ts rs)"
proof -
  have snd: "map snd (zip (map due_id ts) (map success rs)) = map success rs"
    using assms by simp
  show "map fst (zip (map due_id ts) (map success rs)) = map due_id ts" using assms by simp
  have "list_all snd (zip (map due_id ts) (map success rs)) =
          list_all id (map snd (zip (map due_id ts) (map success rs)))"
    by (simp add: list_all_iff)
  then show "list_all snd (zip (map due_id ts) (map success rs)) = list_all success rs"
    unfolding snd by (simp add: list_all_iff)
  have "length (filter snd (zip (map due_id ts) (map success rs))) =
          length (filter id (map snd (zip (map due_id ts) (map success rs))))"
    by (simp add: filter_map comp_def)
  then show "length (filter snd (zip (map due_id ts) (map success rs))) = length (filter success rs)"
    unfolding snd by (simp add: filter_map comp_def)
  have "length (filter (\<lambda>(tid, ok). \<not> ok) (zip (map due_id ts) (map success rs))) =
          length (filter (\<lambda>ok. \<not> ok) (map snd (zip (map due_id ts) (map success rs))))"
    by (simp add: filter_map comp_def case_prod_unfold)
  then show "length (filter (\<lambda>(tid, ok). \<not> ok) (zip (map due_id ts) (map success rs))) =
           length (filter (\<lambda>r. \<not> success r) rs)"
    unfolding snd by (simp add: filter_map comp_def)
  show "map fst (filter (\<lambda>(tid, ok). \<not> ok) (zip (map due_id ts) (map success rs))) =
           map due_id (failedTasks ts rs)"
    unfolding failedTasks_zip [OF assms]
    by (simp add: zip_map_map filter_map comp_def case_prod_unfold)
qed

lemma flaky_first:
  "launches (takeWhile (\<lambda>e. \<not> isSleep e) (trace (snd (runBatch flakyHost [exampleTask] start)))) =
     [(str ''t1'', False)]"
  by code_simp

text \<open>
  C4. An empty batch is answered at once, with nothing done. For a batch that is not
  empty, the trace up to the first wait is one launch for each task, in the order of the
  tasks. When all of them succeed, nothing follows. When some fail, what follows is the
  wait named "retry-delay" with the duration argument 300 (five minutes, as the source
  reads it) and then one launch for each task whose first launch failed, in the same
  order, and nothing else. The
  result reports the number of tasks and the numbers of launches of the first pass that
  succeeded and that failed; the outcome of the retries does not enter it.
\<close>

theorem batch_retry:
  "runBatch h [] s = (Inr (BatchEmpty 0 (str ''No tasks to process'')), s) \<and>
   (dueTasks \<noteq> [] \<longrightarrow>
      map fst (launches (takeWhile (\<lambda>e. \<not> isSleep e) (trace (snd (runBatch h dueTasks start))))) =
        map due_id dueTasks \<and>
      length (takeWhile (\<lambda>e. \<not> isSleep e) (trace (snd (runBatch h dueTasks start)))) = length dueTasks \<and>
      (\<exists>stamp. fst (runBatch h dueTasks start) =
         Inr (BatchReport (length dueTasks)
               (length (filter snd
                  (launches (takeWhile (\<lambda>e. \<not> isSleep e) (trace (snd (runBatch h dueTasks start)))))))
               (length (filter (\<lambda>(tid, ok). \<not> ok)
                  (launches (takeWhile (\<lambda>e. \<not> isSleep e) (trace (snd (runBatch h dueTasks start)))))))
               stamp)) \<and>
      (if list_all snd (launches (takeWhile (\<lambda>e. \<not> isSleep e) (trace (snd (runBatch h dueTasks start)))))
       then dropWhile (\<lambda>e. \<not> isSleep e) (trace (snd (runBatch h dueTasks start))) = []
       else \<exists>retry.
              dropWhile (\<lambda>e. \<not> isSleep e) (trace (snd (runBatch h dueTasks start))) =
                Sleep (str ''retry-delay'') 300 # retry \<and>
              list_all (\<lambda>e. \<not> isSleep e) retry \<and> length (launches retry) = length retry \<and>
              map fst (launches retry) =
                map fst (filter (\<lambda>(tid, ok). \<not> ok)
                  (launches (takeWhile (\<lambda>e. \<not> isSleep e) (trace (snd (runBatch h dueTasks start))))))))"
proof (intro conjI impI)
  show "runBatch h [] s = (Inr (BatchEmpty 0 (str ''No tasks to process'')), s)"
    by (simp add: runBatch_def)
next
  assume ne: "dueTasks \<noteq> []"
  define tr where "tr = trace (snd (runBatch h dueTasks start))"
  define res where "res = fst (runBatch h dueTasks start)"
  have run: "runBatch h dueTasks start = (res, snd (runBatch h dueTasks start))" by (simp add: res_def)
  have ts: "trace start = []" by (simp add: start_def)
  from runBatch_shape [OF ne run, unfolded ts append_Nil] obtain first rs where
    first: "quiet first" "length first = length dueTasks" "length rs = length dueTasks"
      "launches first = zip (map due_id dueTasks) (map success rs)"
    and report: "\<exists>stamp. res = Inr (BatchReport (length dueTasks) (length (filter success rs))
                                 (length (filter (\<lambda>r. \<not> success r) rs)) stamp)"
    and rest: "if list_all success rs then tr = first
            else \<exists>retry rs'. tr = first @ retryDelay # retry \<and> quiet retry \<and>
                   length retry = length (failedTasks dueTasks rs) \<and>
                   launches retry = zip (map due_id (failedTasks dueTasks rs)) (map success rs') \<and>
                   length rs' = length (failedTasks dueTasks rs)"
    unfolding tr_def [symmetric] by blast
  note z = zip_launches [OF first(3)]
  have split: "takeWhile (\<lambda>e. \<not> isSleep e) tr = first \<and>
      (if list_all success rs then dropWhile (\<lambda>e. \<not> isSleep e) tr = []
       else \<exists>retry rs'. dropWhile (\<lambda>e. \<not> isSleep e) tr = retryDelay # retry \<and> quiet retry \<and>
                   length retry = length (failedTasks dueTasks rs) \<and>
                   launches retry = zip (map due_id (failedTasks dueTasks rs)) (map success rs') \<and>
                   length rs' = length (failedTasks dueTasks rs))"
  proof (cases "list_all success rs")
    case True
    with rest first(1) show ?thesis by (simp add: takeWhile_all_quiet dropWhile_all_quiet)
  next
    case False
    with rest obtain retry rs' where r: "tr = first @ retryDelay # retry" "quiet retry"
      "length retry = length (failedTasks dueTasks rs)"
      "launches retry = zip (map due_id (failedTasks dueTasks rs)) (map success rs')"
      "length rs' = length (failedTasks dueTasks rs)"
      by auto
    have "isSleep retryDelay" by (simp add: retryDelay_def)
    from takeWhile_quiet [OF first(1) this, of retry] r False show ?thesis by auto
  qed
  then have tw: "takeWhile (\<lambda>e. \<not> isSleep e) tr = first" by simp
  show "map fst (launches (takeWhile (\<lambda>e. \<not> isSleep e) (trace (snd (runBatch h dueTasks start))))) =
        map due_id dueTasks"
    unfolding tr_def [symmetric] tw first(4) by (rule z(1))
  show "length (takeWhile (\<lambda>e. \<not> isSleep e) (trace (snd (runBatch h dueTasks start)))) = length dueTasks"
    unfolding tr_def [symmetric] tw by (rule first(2))
  show "\<exists>stamp. fst (runBatch h dueTasks start) =
         Inr (BatchReport (length dueTasks)
               (length (filter snd
                  (launches (takeWhile (\<lambda>e. \<not> isSleep e) (trace (snd (runBatch h dueTasks start)))))))
               (length (filter (\<lambda>(tid, ok). \<not> ok)
                  (launches (takeWhile (\<lambda>e. \<not> isSleep e) (trace (snd (runBatch h dueTasks start)))))))
               stamp)"
    unfolding tr_def [symmetric] res_def [symmetric] tw first(4) z(3) z(4) by (rule report)
  show "if list_all snd (launches (takeWhile (\<lambda>e. \<not> isSleep e) (trace (snd (runBatch h dueTasks start)))))
       then dropWhile (\<lambda>e. \<not> isSleep e) (trace (snd (runBatch h dueTasks start))) = []
       else \<exists>retry.
              dropWhile (\<lambda>e. \<not> isSleep e) (trace (snd (runBatch h dueTasks start))) =
                Sleep (str ''retry-delay'') 300 # retry \<and>
              list_all (\<lambda>e. \<not> isSleep e) retry \<and> length (launches retry) = length retry \<and>
              map fst (launches retry) =
                map fst (filter (\<lambda>(tid, ok). \<not> ok)
                  (launches (takeWhile (\<lambda>e. \<not> isSleep e) (trace (snd (runBatch h dueTasks start))))))"
    unfolding tr_def [symmetric] tw first(4) z(2) z(5)
  proof (cases "list_all success rs")
    case True
    with split show "if list_all success rs
       then dropWhile (\<lambda>e. \<not> isSleep e) tr = []
       else \<exists>retry. dropWhile (\<lambda>e. \<not> isSleep e) tr = Sleep (str ''retry-delay'') 300 # retry \<and>
              list_all (\<lambda>e. \<not> isSleep e) retry \<and> length (launches retry) = length retry \<and>
              map fst (launches retry) = map due_id (failedTasks dueTasks rs)"
      by simp
  next
    case False
    with split obtain retry rs' where r: "dropWhile (\<lambda>e. \<not> isSleep e) tr = retryDelay # retry"
      "quiet retry" "length retry = length (failedTasks dueTasks rs)"
      "launches retry = zip (map due_id (failedTasks dueTasks rs)) (map success rs')"
      "length rs' = length (failedTasks dueTasks rs)"
      by auto
    have "dropWhile (\<lambda>e. \<not> isSleep e) tr = Sleep (str ''retry-delay'') 300 # retry \<and>
              list_all (\<lambda>e. \<not> isSleep e) retry \<and> length (launches retry) = length retry \<and>
              map fst (launches retry) = map due_id (failedTasks dueTasks rs)"
      using r by (simp add: retryDelay_def quiet_def)
    then have "\<exists>retry. dropWhile (\<lambda>e. \<not> isSleep e) tr = Sleep (str ''retry-delay'') 300 # retry \<and>
              list_all (\<lambda>e. \<not> isSleep e) retry \<and> length (launches retry) = length retry \<and>
              map fst (launches retry) = map due_id (failedTasks dueTasks rs)"
      by (rule exI)
    with False show "if list_all success rs
       then dropWhile (\<lambda>e. \<not> isSleep e) tr = []
       else \<exists>retry. dropWhile (\<lambda>e. \<not> isSleep e) tr = Sleep (str ''retry-delay'') 300 # retry \<and>
              list_all (\<lambda>e. \<not> isSleep e) retry \<and> length (launches retry) = length retry \<and>
              map fst (launches retry) = map due_id (failedTasks dueTasks rs)"
      by (simp only: if_False)
  qed
qed


theorem batch_retry_witness:
  "[exampleTask] \<noteq> [] \<and>
   (\<exists>stamp. fst (runBatch flakyHost [exampleTask] start) = Inr (BatchReport 1 0 1 stamp)) \<and>
   (\<exists>retry. dropWhile (\<lambda>e. \<not> isSleep e) (trace (snd (runBatch flakyHost [exampleTask] start))) =
              Sleep (str ''retry-delay'') 300 # retry \<and>
            map fst (launches retry) = [str ''t1''])"
proof -
  have t: "due_id exampleTask = str ''t1''" by (simp add: exampleTask_def)
  from batch_retry [of flakyHost start "[exampleTask]"] flaky_first
  have "\<exists>stamp. fst (runBatch flakyHost [exampleTask] start) = Inr (BatchReport 1 0 1 stamp)"
    and "\<exists>retry. dropWhile (\<lambda>e. \<not> isSleep e) (trace (snd (runBatch flakyHost [exampleTask] start))) =
              Sleep (str ''retry-delay'') 300 # retry \<and>
            list_all (\<lambda>e. \<not> isSleep e) retry \<and> length (launches retry) = length retry \<and>
            map fst (launches retry) = [str ''t1'']"
    by (simp_all add: t)
  then show ?thesis by (elim exE conjE) (intro conjI exI, simp_all)
qed

text \<open>
  A batch of one task whose first launch fails and whose retried launch succeeds is
  reported with no success and one failure.
\<close>

theorem batch_report_counterexample:
  "fst (runBatch flakyHost [exampleTask] start) = Inr (BatchReport 1 0 1 1000) \<and>
   launches (trace (snd (runBatch flakyHost [exampleTask] start))) =
     [(str ''t1'', False), (str ''t1'', True)]"
  by code_simp


end
